theory Spec2Isabelle
  imports Complex_Main "HOL-Library.Word" "HOL-Library.Sublist"
begin

section \<open>C library functions used by the binding layer\<close>

text \<open>
  A C string is the list of its bytes before the terminator, a pointer into it is the
  suffix that starts there, and \<open>NULL\<close> is \<open>None\<close>. The program never calls
  \<open>setlocale\<close>, so the classification functions are those of the C locale.
\<close>

definition isspace_c :: "char \<Rightarrow> bool" where
  "isspace_c c \<longleftrightarrow>
     c = CHR '' '' \<or> c = CHR 0x09 \<or> c = CHR 0x0A \<or> c = CHR 0x0B \<or> c = CHR 0x0C \<or> c = CHR 0x0D"

definition isdigit_c :: "char \<Rightarrow> bool" where
  "isdigit_c c \<longleftrightarrow> (48::nat) \<le> of_char c \<and> of_char c \<le> (57::nat)"

definition digit_val :: "char \<Rightarrow> nat" where
  "digit_val c = of_char c - 48"

definition dec_val :: "string \<Rightarrow> nat" where
  "dec_val ds = foldl (\<lambda>a c. 10 * a + digit_val c) 0 ds"

definition LLONG_MAX :: int where
  "LLONG_MAX = 9223372036854775807"

definition LLONG_MIN :: int where
  "LLONG_MIN = - 9223372036854775808"

text \<open>
  \<open>strtoll(s, &end, 10)\<close>: white space, an optional sign, decimal digits. The result is
  the value, clamped to the range of \<open>long long\<close>, and the number of bytes consumed;
  with no digit nothing is consumed (\<open>end = s\<close>) and the value is 0.
\<close>

definition strtoll_c :: "string \<Rightarrow> int \<times> nat" where
  "strtoll_c s =
     (let ws = takeWhile isspace_c s;
          r = dropWhile isspace_c s;
          neg = (r \<noteq> [] \<and> hd r = CHR ''-'');
          sg = (if r \<noteq> [] \<and> (hd r = CHR ''-'' \<or> hd r = CHR ''+'') then 1 else 0);
          ds = takeWhile isdigit_c (drop sg r);
          v = int (dec_val ds)
      in if ds = [] then (0, 0)
         else (if neg then max LLONG_MIN (- v) else min LLONG_MAX v,
               length ws + sg + length ds))"

text \<open>\<open>strstr\<close>: the suffix at the first occurrence of the needle.\<close>

fun strstr :: "string \<Rightarrow> string \<Rightarrow> string option" where
  "strstr [] needle = (if needle = [] then Some [] else None)"
| "strstr (c # t) needle =
     (if prefix needle (c # t) then Some (c # t) else strstr t needle)"

text \<open>\<open>strchr\<close> for a byte other than the terminator: the suffix at its first occurrence.\<close>

fun strchr :: "string \<Rightarrow> char \<Rightarrow> string option" where
  "strchr [] c = None"
| "strchr (x # t) c = (if x = c then Some (x # t) else strchr t c)"

subsection \<open>Floating-point values and \<open>strtod\<close>\<close>

text \<open>
  A \<open>double\<close> is modelled by the exact rational it stands for, or by an infinity (the flag
  is the sign bit) or a NaN. Rounding to binary64, overflow, underflow and the sign of
  zero are not modelled: arithmetic on finite values is exact.
\<close>

datatype cdouble = Finite rat | Infinity bool | NaN

fun d_neg :: "cdouble \<Rightarrow> cdouble" where
  "d_neg (Finite x) = Finite (- x)"
| "d_neg (Infinity s) = Infinity (\<not> s)"
| "d_neg NaN = NaN"

fun d_fabs :: "cdouble \<Rightarrow> cdouble" where
  "d_fabs (Finite x) = Finite \<bar>x\<bar>"
| "d_fabs (Infinity s) = Infinity False"
| "d_fabs NaN = NaN"

fun d_add :: "cdouble \<Rightarrow> cdouble \<Rightarrow> cdouble" where
  "d_add (Finite x) (Finite y) = Finite (x + y)"
| "d_add (Finite x) (Infinity t) = Infinity t"
| "d_add (Infinity s) (Finite y) = Infinity s"
| "d_add (Infinity s) (Infinity t) = (if s = t then Infinity s else NaN)"
| "d_add NaN y = NaN"
| "d_add x NaN = NaN"

definition d_sub :: "cdouble \<Rightarrow> cdouble \<Rightarrow> cdouble" where
  "d_sub x y = d_add x (d_neg y)"

fun d_gt :: "cdouble \<Rightarrow> cdouble \<Rightarrow> bool" where
  "d_gt (Finite x) (Finite y) = (y < x)"
| "d_gt (Finite x) (Infinity t) = t"
| "d_gt (Infinity s) (Finite y) = (\<not> s)"
| "d_gt (Infinity s) (Infinity t) = (\<not> s \<and> t)"
| "d_gt NaN y = False"
| "d_gt x NaN = False"

fun d_div :: "cdouble \<Rightarrow> cdouble \<Rightarrow> cdouble" where
  "d_div (Finite x) (Finite y) =
     (if y = 0 then (if x = 0 then NaN else Infinity (x < 0)) else Finite (x / y))"
| "d_div (Finite x) (Infinity t) = Finite 0"
| "d_div (Infinity s) (Finite y) = Infinity (s \<noteq> (y < 0))"
| "d_div (Infinity s) (Infinity t) = NaN"
| "d_div NaN y = NaN"
| "d_div x NaN = NaN"

definition tolower_c :: "char \<Rightarrow> char" where
  "tolower_c c =
     (if (65::nat) \<le> of_char c \<and> of_char c \<le> (90::nat)
      then char_of (of_char c + (32::nat)) else c)"

definition isxdigit_c :: "char \<Rightarrow> bool" where
  "isxdigit_c c \<longleftrightarrow>
     isdigit_c c \<or> ((97::nat) \<le> of_char (tolower_c c) \<and> of_char (tolower_c c) \<le> (102::nat))"

definition isalnum_c :: "char \<Rightarrow> bool" where
  "isalnum_c c \<longleftrightarrow>
     isdigit_c c \<or> ((97::nat) \<le> of_char (tolower_c c) \<and> of_char (tolower_c c) \<le> (122::nat))"

definition xdigit_val :: "char \<Rightarrow> nat" where
  "xdigit_val c = (if isdigit_c c then of_char c - 48 else of_char (tolower_c c) - 87)"

definition hex_val :: "string \<Rightarrow> nat" where
  "hex_val ds = foldl (\<lambda>a c. 16 * a + xdigit_val c) 0 ds"

definition ci_prefix :: "string \<Rightarrow> string \<Rightarrow> bool" where
  "ci_prefix w s \<longleftrightarrow> prefix w (map tolower_c s)"

definition pow_int :: "rat \<Rightarrow> int \<Rightarrow> rat" where
  "pow_int b e = (if 0 \<le> e then b ^ nat e else 1 / b ^ nat (- e))"

text \<open>
  The digits of a mantissa with an optional point: the digits before the point, those
  after it, and the number of bytes read. It is a number when one of the two is not empty.
\<close>

definition mantissa :: "(char \<Rightarrow> bool) \<Rightarrow> string \<Rightarrow> string \<times> string \<times> nat" where
  "mantissa isd s =
     (let ip = takeWhile isd s
      in case dropWhile isd s of
           [] \<Rightarrow> (ip, [], length ip)
         | c # t \<Rightarrow>
             if c = CHR ''.'' then (ip, takeWhile isd t, length ip + 1 + length (takeWhile isd t))
             else (ip, [], length ip))"

text \<open>
  An exponent part: the marker (\<open>e\<close> or \<open>p\<close>, either case), an optional sign and at
  least one decimal digit; otherwise nothing is read.
\<close>

definition exp_part :: "char \<Rightarrow> string \<Rightarrow> int \<times> nat" where
  "exp_part m s =
     (case s of
        [] \<Rightarrow> (0, 0)
      | c # t \<Rightarrow>
          (let sg = (if t \<noteq> [] \<and> (hd t = CHR ''-'' \<or> hd t = CHR ''+'') then 1 else 0);
               ds = takeWhile isdigit_c (drop sg t)
           in if tolower_c c \<noteq> m \<or> ds = [] then (0, 0)
              else (if t \<noteq> [] \<and> hd t = CHR ''-'' then - int (dec_val ds) else int (dec_val ds),
                    1 + sg + length ds)))"

text \<open>\<open>nan\<close> may be followed by a parenthesised run of letters, digits and underscores.\<close>

definition nan_tail :: "string \<Rightarrow> nat" where
  "nan_tail s =
     (case s of
        [] \<Rightarrow> 0
      | c # t \<Rightarrow>
          (let cs = takeWhile (\<lambda>x. isalnum_c x \<or> x = CHR ''_'') t
           in if c = CHR ''('' \<and> drop (length cs) t \<noteq> [] \<and> hd (drop (length cs) t) = CHR '')''
              then length cs + 2 else 0))"

text \<open>
  The subject sequence after white space and sign: the magnitude and the bytes read, 0
  bytes when there is no number. A \<open>0x\<close> with no hexadecimal digit after it is the
  decimal number \<open>0\<close> followed by an \<open>x\<close>.
\<close>

definition strtod_body :: "string \<Rightarrow> cdouble \<times> nat" where
  "strtod_body s =
     (if ci_prefix ''infinity'' s then (Infinity False, 8)
      else if ci_prefix ''inf'' s then (Infinity False, 3)
      else if ci_prefix ''nan'' s then (NaN, 3 + nan_tail (drop 3 s))
      else
        (let (xi, xf, xn) = mantissa isxdigit_c (drop 2 s);
             (xe, xen) = exp_part CHR ''p'' (drop (2 + xn) s);
             (di, df, dn) = mantissa isdigit_c s;
             (de, den) = exp_part CHR ''e'' (drop dn s)
         in if ci_prefix ''0x'' s \<and> xi @ xf \<noteq> []
            then (Finite (of_nat (hex_val (xi @ xf)) / 16 ^ length xf * pow_int 2 xe), 2 + xn + xen)
            else if di @ df \<noteq> []
            then (Finite (of_nat (dec_val (di @ df)) / 10 ^ length df * pow_int 10 de), dn + den)
            else (Finite 0, 0)))"

text \<open>
  \<open>strtod(s, &end)\<close>: white space, an optional sign, a number. The result is the value and
  the number of bytes consumed; with no number nothing is consumed (\<open>end = s\<close>).
\<close>

definition strtod_c :: "string \<Rightarrow> cdouble \<times> nat" where
  "strtod_c s =
     (let ws = takeWhile isspace_c s;
          r = dropWhile isspace_c s;
          sg = (if r \<noteq> [] \<and> (hd r = CHR ''-'' \<or> hd r = CHR ''+'') then 1 else 0);
          (v, n) = strtod_body (drop sg r)
      in if n = 0 then (Finite 0, 0)
         else (if r \<noteq> [] \<and> hd r = CHR ''-'' then d_neg v else v, length ws + sg + n))"

subsection \<open>\<open>printf\<close> conversions\<close>

function show_nat :: "nat \<Rightarrow> string" where
  "show_nat n =
     (if n < 10 then [char_of (48 + n)] else show_nat (n div 10) @ [char_of (48 + n mod 10)])"
  by pat_completeness auto
termination
  by (relation "measure (\<lambda>n. n)") auto

declare show_nat.simps [simp del]

text \<open>\<open>%d\<close>\<close>

definition show_int :: "int \<Rightarrow> string" where
  "show_int i = (if i < 0 then CHR ''-'' # show_nat (nat (- i)) else show_nat (nat i))"

definition round_half_even :: "rat \<Rightarrow> int" where
  "round_half_even x =
     (let f = \<lfloor>x\<rfloor>; d = x - of_int f
      in if d < 1 / 2 then f else if 1 / 2 < d then f + 1 else if even f then f else f + 1)"

text \<open>
  \<open>%.6f\<close> of a finite value: the value rounded to six decimal places, printed with its
  integer part, a point and six digits.
\<close>

definition fmt_6f :: "rat \<Rightarrow> string" where
  "fmt_6f v =
     (let m = nat (round_half_even (\<bar>v\<bar> * 1000000));
          fp = show_nat (m mod 1000000)
      in (if v < 0 then ''-'' else []) @ show_nat (m div 1000000) @ ''.''
           @ replicate (6 - length fp) CHR ''0'' @ fp)"

text \<open>
  \<open>snprintf(buf, n, ...)\<close> keeps at most \<open>n - 1\<close> bytes of the formatted text.
\<close>

definition snprintf :: "nat \<Rightarrow> string \<Rightarrow> string" where
  "snprintf n s = take (n - 1) s"

section \<open>paragon.h: the capability table\<close>

text \<open>
  The loaded library is opaque: a function it exports takes the library's state \<open>'l\<close>
  and returns its reply (a C string or \<open>NULL\<close>) with the new state. A handle is a
  \<open>long long\<close>, modelled by an \<open>int\<close> that stays in that range.
\<close>

type_synonym 'l fn_NewNetworkFloat32_5 =
  "string \<Rightarrow> string \<Rightarrow> string \<Rightarrow> bool \<Rightarrow> bool \<Rightarrow> 'l \<Rightarrow> string option \<times> 'l"

type_synonym 'l fn_NewNetworkFloat32_3 =
  "string \<Rightarrow> string \<Rightarrow> string \<Rightarrow> 'l \<Rightarrow> string option \<times> 'l"

type_synonym 'l fn_Call =
  "int \<Rightarrow> string \<Rightarrow> string \<Rightarrow> 'l \<Rightarrow> string option \<times> 'l"

text \<open>
  What \<open>dlsym\<close> finds in a shared object. The address it returns is cast to the function
  type of the category that asked for it, so the model keeps one table per category.
\<close>

record 'l shared_object =
  sym5 :: "string \<Rightarrow> 'l fn_NewNetworkFloat32_5 option"
  sym3 :: "string \<Rightarrow> 'l fn_NewNetworkFloat32_3 option"
  symCall :: "string \<Rightarrow> 'l fn_Call option"

record 'l ParagonAPI =
  so :: "'l shared_object option"
  New5 :: "'l fn_NewNetworkFloat32_5 option"
  New3 :: "'l fn_NewNetworkFloat32_3 option"
  Call :: "'l fn_Call option"

text \<open>
  The calls made through the three function pointers are recorded, in order, beside the
  library's state.
\<close>

datatype ext_call =
  CallNew5 string string string bool bool
| CallNew3 string string string
| CallCall int string string

record 'l world =
  env :: 'l
  calls :: "ext_call list"

definition invoke_New5 ::
  "'l fn_NewNetworkFloat32_5 \<Rightarrow> string \<Rightarrow> string \<Rightarrow> string \<Rightarrow> bool \<Rightarrow> bool \<Rightarrow> 'l world
     \<Rightarrow> string option \<times> 'l world" where
  "invoke_New5 f l a t g x w =
     (let (r, e') = f l a t g x (env w)
      in (r, \<lparr>env = e', calls = calls w @ [CallNew5 l a t g x]\<rparr>))"

definition invoke_New3 ::
  "'l fn_NewNetworkFloat32_3 \<Rightarrow> string \<Rightarrow> string \<Rightarrow> string \<Rightarrow> 'l world
     \<Rightarrow> string option \<times> 'l world" where
  "invoke_New3 f l a t w =
     (let (r, e') = f l a t (env w)
      in (r, \<lparr>env = e', calls = calls w @ [CallNew3 l a t]\<rparr>))"

definition invoke_Call ::
  "'l fn_Call \<Rightarrow> int \<Rightarrow> string \<Rightarrow> string \<Rightarrow> 'l world \<Rightarrow> string option \<times> 'l world" where
  "invoke_Call f h m a w =
     (let (r, e') = f h m a (env w)
      in (r, \<lparr>env = e', calls = calls w @ [CallCall h m a]\<rparr>))"

section \<open>paragon.c: the capability resolver\<close>

definition must_dlsym_try :: "'s option \<Rightarrow> ('s \<Rightarrow> string \<Rightarrow> 'f option) \<Rightarrow> string \<Rightarrow> 'f option" where
  "must_dlsym_try lib tab name = (case lib of None \<Rightarrow> None | Some l \<Rightarrow> tab l name)"

fun resolve_any :: "'s option \<Rightarrow> ('s \<Rightarrow> string \<Rightarrow> 'f option) \<Rightarrow> string list \<Rightarrow> 'f option" where
  "resolve_any lib tab [] = None"
| "resolve_any lib tab (n # ns) =
     (case must_dlsym_try lib tab n of Some p \<Rightarrow> Some p | None \<Rightarrow> resolve_any lib tab ns)"

definition NEW5 :: "string list" where
  "NEW5 = [''Paragon_NewNetworkFloat32'', ''Teleport_NewNetworkFloat32'', ''NewNetworkFloat32'']"

definition NEW3 :: "string list" where
  "NEW3 = [''Paragon_NewNetworkFloat32_JSON'', ''Teleport_NewNetworkFloat32_JSON'',
           ''NewNetworkFloat32_JSON'']"

definition CALLN :: "string list" where
  "CALLN = [''Paragon_Call'', ''Teleport_Call'', ''Call'']"

text \<open>
  \<open>paragon_load\<close>. The platform's \<open>dlopen\<close> is a parameter; an absent or empty path
  is passed on as \<open>NULL\<close>. The table is zeroed first, and the result is 1 on both paths.
\<close>

definition paragon_load ::
  "(string option \<Rightarrow> 'l shared_object option) \<Rightarrow> string option \<Rightarrow> int \<times> 'l ParagonAPI" where
  "paragon_load dlopen so_path =
     (let api = \<lparr>so = None, New5 = None, New3 = None, Call = None\<rparr>;
          api = api\<lparr>so := dlopen (case so_path of
                                    None \<Rightarrow> None
                                  | Some p \<Rightarrow> if p \<noteq> [] then Some p else None)\<rparr>
      in if so api = None then (1, api)
         else (1, api\<lparr>New5 := resolve_any (so api) sym5 NEW5,
                      New3 := resolve_any (so api) sym3 NEW3,
                      Call := resolve_any (so api) symCall CALLN\<rparr>))"

definition paragon_unload :: "'l ParagonAPI option \<Rightarrow> 'l ParagonAPI option" where
  "paragon_unload api =
     (case api of
        None \<Rightarrow> None
      | Some a \<Rightarrow> Some (a\<lparr>so := None, New5 := None, New3 := None, Call := None\<rparr>))"

section \<open>paragon.c: handle decoding\<close>

definition handle_keys :: "string list" where
  \<open>handle_keys =
     [''"handle"'', ''"Handle"'', ''"id"'', ''"ID"'',
      ''"network_handle"'', ''"NetworkHandle"'', ''"h"'', ''"H"'']\<close>

definition skip_char :: "char \<Rightarrow> bool" where
  "skip_char c \<longleftrightarrow> c = CHR '':'' \<or> c = CHR '' '' \<or> c = CHR 0x09 \<or> c = CHR 0x22"

text \<open>
  The inner loop over the keys for one haystack: a key that is missing, has no colon after
  it, or has no integer after the skipped bytes is passed over (\<open>continue\<close>).
\<close>

fun scan_keys :: "string \<Rightarrow> string list \<Rightarrow> int option" where
  "scan_keys hay [] = None"
| "scan_keys hay (k # ks) =
     (case strstr hay k of
        None \<Rightarrow> scan_keys hay ks
      | Some p \<Rightarrow>
          (case strchr p CHR '':'' of
             None \<Rightarrow> scan_keys hay ks
           | Some q \<Rightarrow>
               (let r = dropWhile skip_char q;
                    (n, e) = strtoll_c r
                in if e \<noteq> 0 then Some n else scan_keys hay ks)))"

text \<open>
  \<open>paragon_parse_handle\<close>. The test \<open>*endp == 0\<close> holds when \<open>strtoll\<close> stopped at the
  terminator, that is when it consumed the whole text. The two passes of the outer loop are
  written out: the whole text first, then the text from the first \<open>"result"\<close>.
\<close>

definition paragon_parse_handle :: "string option \<Rightarrow> int" where
  \<open>paragon_parse_handle txt =
     (case txt of
        None \<Rightarrow> - 1
      | Some t \<Rightarrow>
          (let (v, endp) = strtoll_c t
           in if endp = length t then v
              else (case scan_keys t handle_keys of
                      Some n \<Rightarrow> n
                    | None \<Rightarrow>
                        (case strstr t ''"result"'' of
                           None \<Rightarrow> - 1
                         | Some r \<Rightarrow>
                             (case scan_keys r handle_keys of
                                Some n \<Rightarrow> n
                              | None \<Rightarrow> - 1)))))\<close>

section \<open>paragon.c: calls and network construction\<close>

definition paragon_call0 ::
  "'l ParagonAPI option \<Rightarrow> int \<Rightarrow> string \<Rightarrow> 'l world \<Rightarrow> string option \<times> 'l world" where
  "paragon_call0 api h method w =
     (case api of
        None \<Rightarrow> (None, w)
      | Some a \<Rightarrow>
          (case Call a of
             None \<Rightarrow> (None, w)
           | Some f \<Rightarrow> invoke_Call f h method ''[]'' w))"

definition bool_json :: "bool \<Rightarrow> string" where
  "bool_json b = (if b then ''true'' else ''false'')"

definition paragon_new_net_any ::
  "'l ParagonAPI \<Rightarrow> string \<Rightarrow> string \<Rightarrow> string \<Rightarrow> bool \<Rightarrow> bool \<Rightarrow> 'l world
     \<Rightarrow> string option \<times> 'l world" where
  "paragon_new_net_any api layers_json activs_json trainable_json prefer_gpu expose_methods_json w =
     (case New5 api of
        Some f5 \<Rightarrow>
          invoke_New5 f5 layers_json activs_json trainable_json prefer_gpu expose_methods_json w
      | None \<Rightarrow>
          (case New3 api of
             Some f3 \<Rightarrow> invoke_New3 f3 layers_json activs_json trainable_json w
           | None \<Rightarrow>
               (case Call api of
                  Some f \<Rightarrow>
                    (let n = length layers_json + length activs_json + length trainable_json + 64;
                         args = snprintf n
                           (''['' @ layers_json @ '','' @ activs_json @ '','' @ trainable_json @ '',''
                              @ bool_json prefer_gpu @ '','' @ bool_json expose_methods_json @ '']'')
                     in invoke_Call f 0 ''NewNetworkFloat32'' args w)
                | None \<Rightarrow> (None, w))))"

section \<open>bench.c: request texts\<close>

text \<open>
  \<open>append\<close> formats into a 512-byte scratch buffer and copies the result to the end of
  the growing text. Every piece formatted by this program is far shorter than 512 bytes,
  and allocation is taken to succeed, so the call adds the piece as it is.
\<close>

definition append_buf :: "string \<Rightarrow> string \<Rightarrow> string" where
  "append_buf b piece = b @ piece"

definition json_layers :: "int list \<Rightarrow> int \<Rightarrow> string" where
  \<open>json_layers dims ndims =
     append_buf
       (foldl (\<lambda>b i. append_buf (if i \<noteq> 0 then append_buf b '','' else b)
                         (''{"Width":'' @ show_int (dims ! i) @ '',"Height":1}''))
          (append_buf [] ''['') [0..<nat ndims])
       '']''\<close>

definition json_activs :: "int \<Rightarrow> string" where
  \<open>json_activs ndims =
     append_buf
       (foldl (\<lambda>b i. append_buf b '',"relu"'') (append_buf [] ''["linear"'') [1..<nat (ndims - 1)])
       '',"softmax"]''\<close>

definition json_trainable :: "int \<Rightarrow> string" where
  "json_trainable ndims =
     append_buf
       (foldl (\<lambda>b i. append_buf b (if i \<noteq> 0 then '',true'' else ''true''))
          (append_buf [] ''['') [0..<nat ndims])
       '']''"

text \<open>
  The loop of \<open>json_fixed784\<close>. The state \<open>s\<close> is an \<open>unsigned\<close> of 32 bits, so the
  recurrence wraps; \<open>v\<close> is the state divided by 4294967295. Beside the text, the model
  keeps the successive values of \<open>v\<close> in \<open>vs\<close>: they are the input vector that the text
  serializes.
\<close>

function fixed784_loop :: "nat \<Rightarrow> 32 word \<Rightarrow> rat list \<Rightarrow> string \<Rightarrow> rat list \<times> string" where
  "fixed784_loop i s vs b =
     (if i < 784
      then (let s' = s * 1664525 + 1013904223;
                v = of_nat (unat s') / 4294967295
            in fixed784_loop (i + 1) s' (vs @ [v])
                 (append_buf b ((if i \<noteq> 0 then '','' else []) @ fmt_6f v)))
      else (vs, b))"
  by pat_completeness auto
termination
  by (relation "measure (\<lambda>(i, s, vs, b). 784 - i)") auto

declare fixed784_loop.simps [simp del]

definition fixed784_vector :: "rat list" where
  "fixed784_vector = fst (fixed784_loop 0 123 [] (append_buf [] ''[[''))"

definition json_fixed784 :: string where
  "json_fixed784 = append_buf (snd (fixed784_loop 0 123 [] (append_buf [] ''[[''))) '']]''"

section \<open>bench.c: numeric-vector decoding\<close>

text \<open>Positions of the first and of the last occurrence of a byte (\<open>strchr\<close>, \<open>strrchr\<close>).\<close>

fun strchr_pos :: "string \<Rightarrow> char \<Rightarrow> nat option" where
  "strchr_pos [] c = None"
| "strchr_pos (x # t) c = (if x = c then Some 0 else map_option Suc (strchr_pos t c))"

definition strrchr_pos :: "string \<Rightarrow> char \<Rightarrow> nat option" where
  "strrchr_pos t c = map_option (\<lambda>i. length t - 1 - i) (strchr_pos (rev t) c)"

text \<open>
  The scanning loop: \<open>s\<close> and \<open>q\<close> are positions in the text, \<open>out\<close> holds the \<open>n\<close>
  values stored so far.
\<close>

function scan_floats :: "string \<Rightarrow> nat \<Rightarrow> int \<Rightarrow> nat \<Rightarrow> cdouble list \<Rightarrow> cdouble list" where
  "scan_floats txt q maxn s out =
     (if s < q \<and> int (length out) < maxn
      then (let (v, e) = strtod_c (drop s txt)
            in if e = 0 then scan_floats txt q maxn (s + 1) out
               else scan_floats txt q maxn (s + e) (out @ [v]))
      else out)"
  by pat_completeness auto
termination
  by (relation "measure (\<lambda>(txt, q, maxn, s, out). q - s)") auto

declare scan_floats.simps [simp del]

definition parse_vector_tolerant :: "string option \<Rightarrow> int \<Rightarrow> cdouble list" where
  "parse_vector_tolerant txt maxn =
     (case txt of
        None \<Rightarrow> []
      | Some t \<Rightarrow>
          (case strchr_pos t CHR ''['' of
             None \<Rightarrow> []
           | Some p \<Rightarrow>
               (case strrchr_pos t CHR '']'' of
                  None \<Rightarrow> []
                | Some q \<Rightarrow> if q \<le> p then [] else scan_floats t q maxn (p + 1) [])))"

section \<open>bench.c: the benchmark engine\<close>

text \<open>
  \<open>now_ms\<close> reads the monotonic clock. The clock is a parameter that reads, and may
  advance, the environment.
\<close>

definition now_ms :: "('l \<Rightarrow> rat \<times> 'l) \<Rightarrow> 'l world \<Rightarrow> rat \<times> 'l world" where
  "now_ms clock w = (let (t, e') = clock (env w) in (t, w\<lparr>env := e'\<rparr>))"

definition try_gpu_enable :: "'l ParagonAPI option \<Rightarrow> int \<Rightarrow> 'l world \<Rightarrow> 'l world" where
  \<open>try_gpu_enable api h w =
     (case api of
        None \<Rightarrow> w
      | Some a \<Rightarrow>
          (case Call a of
             None \<Rightarrow> w
           | Some f \<Rightarrow>
               (let (r1, w1) = paragon_call0 api h ''SetWebGPUNative'' w;
                    (r2, w2) = paragon_call0 api h ''WebGPUNativeOn'' w1;
                    (r3, w3) = invoke_Call f h ''Configure'' ''[{"WebGPUNative":true}]'' w2;
                    (r4, w4) = invoke_Call f h ''SetOptions'' ''[{"WebGPUNative":true}]'' w3;
                    (r5, w5) = invoke_Call f h ''SetField'' ''["WebGPUNative",true]'' w4;
                    (r6, w6) = invoke_Call f h ''Call'' ''["SetWebGPUNative",[true]]'' w5
                in w6)))\<close>

text \<open>
  A call written \<open>api->Call(...)\<close> with no test of the pointer: with the capability
  unbound it is a call through a null pointer, and the run ends there (\<open>None\<close>).
\<close>

definition call_ptr ::
  "'l ParagonAPI \<Rightarrow> int \<Rightarrow> string \<Rightarrow> string \<Rightarrow> 'l world \<Rightarrow> (string option \<times> 'l world) option" where
  "call_ptr api h m a w =
     (case Call api of None \<Rightarrow> None | Some f \<Rightarrow> Some (invoke_Call f h m a w))"

text \<open>The difference loop of \<open>run_one\<close> over the two decoded arrays.\<close>

function diff_loop ::
  "cdouble list \<Rightarrow> cdouble list \<Rightarrow> nat \<Rightarrow> nat \<Rightarrow> cdouble \<Rightarrow> cdouble \<Rightarrow> cdouble \<times> cdouble" where
  "diff_loop a b n i mae mx =
     (if i < n
      then (let d = d_fabs (d_sub (a ! i) (b ! i))
            in diff_loop a b n (i + 1) (d_add mae d) (if d_gt d mx then d else mx))
      else (mae, mx))"
  by pat_completeness auto
termination
  by (relation "measure (\<lambda>(a, b, n, i, mae, mx). n - i)") auto

declare diff_loop.simps [simp del]

text \<open>
  The comparing step of \<open>run_one\<close>: both replies are decoded with a bound of 1024 values,
  \<open>n\<close> is the smaller count, and the mean is divided only when \<open>n\<close> is positive.
\<close>

definition compare_vectors :: "cdouble list \<Rightarrow> cdouble list \<Rightarrow> cdouble \<times> cdouble" where
  "compare_vectors a b =
     (let na = length a;
          nb = length b;
          n = (if na < nb then na else nb);
          (mae, mx) = diff_loop a b n 0 (Finite 0) (Finite 0)
      in (if 0 < n then d_div mae (Finite (of_nat n)) else mae, mx))"

definition compare_outputs :: "string option \<Rightarrow> string option \<Rightarrow> cdouble \<times> cdouble" where
  "compare_outputs outA outB =
     compare_vectors (parse_vector_tolerant outA 1024) (parse_vector_tolerant outB 1024)"

text \<open>The estimate of the weights' size: products of adjacent widths plus the biases.\<close>

definition est_mb :: "int list \<Rightarrow> int \<Rightarrow> rat" where
  "est_mb dims ndims =
     (let params = sum_list (map (\<lambda>i. dims ! i * dims ! (i + 1)) [0..<nat (ndims - 1)])
                     + sum_list (map (\<lambda>i. dims ! i) [1..<nat ndims])
      in of_int params * 4 / (1024 * 1024))"

text \<open>The ratio printed as speed-up: the division is evaluated only in the first branch.\<close>

definition speedup :: "rat \<Rightarrow> rat \<Rightarrow> cdouble" where
  "speedup cpu_ms gpu_ms = (if 0 < gpu_ms then d_div (Finite cpu_ms) (Finite gpu_ms) else Finite 0)"

text \<open>What one case prints, as a record of the printed quantities.\<close>

record report =
  r_id :: string
  r_dims :: "int list"
  r_estMB :: rat
  r_adapter :: string
  r_gpu_init_ms :: rat
  r_cpu_ms :: rat
  r_gpu_ms :: rat
  r_speedup :: cdouble
  r_mae :: cdouble
  r_mx :: cdouble
  r_outA :: string
  r_outB :: string

datatype outcome = ConstructionFailed "string option" | Reported report

definition forward_args :: "string \<Rightarrow> string" where
  "forward_args xin = snprintf (length xin + 3) (''['' @ xin @ '']'')"

text \<open>
  \<open>run_one\<close>. The result is \<open>None\<close> when the run ends in a call through a null pointer.
  With a handle that is zero or negative the case is given up after the construction
  (\<open>goto out\<close>).
\<close>

definition run_one ::
  "('l \<Rightarrow> rat \<times> 'l) \<Rightarrow> 'l ParagonAPI \<Rightarrow> string \<Rightarrow> int list \<Rightarrow> int \<Rightarrow> 'l world
     \<Rightarrow> (outcome \<times> 'l world) option" where
  "run_one clock api ident dims ndims w =
     (let layers = json_layers dims ndims;
          activs = json_activs ndims;
          fully = json_trainable ndims;
          xin = json_fixed784;
          (newr, w1) = paragon_new_net_any api layers activs fully False False w;
          h = paragon_parse_handle newr
      in if h \<le> 0 then Some (ConstructionFailed newr, w1)
         else
           (let (t_gpu_init_s, w2) = now_ms clock w1;
                (adapter, w3) = paragon_call0 (Some api) h ''InitializeOptimizedGPU'' w2;
                (t_gpu_init_e, w4) = now_ms clock w3;
                w5 = try_gpu_enable (Some api) h w4;
                (t0, w6) = now_ms clock w5
            in case call_ptr api h ''Forward'' (forward_args xin) w6 of
                 None \<Rightarrow> None
               | Some (ra, w7) \<Rightarrow>
                   (let (outA, w8) = paragon_call0 (Some api) h ''ExtractOutput'' w7;
                        (t1, w9) = now_ms clock w8;
                        (rt, w10) = paragon_call0 (Some api) h ''ToggleGPU'' w9;
                        (tg0, w11) = now_ms clock w10
                    in case call_ptr api h ''Forward'' (forward_args xin) w11 of
                         None \<Rightarrow> None
                       | Some (rb, w12) \<Rightarrow>
                           (let (outB, w13) = paragon_call0 (Some api) h ''ExtractOutput'' w12;
                                (tg1, w14) = now_ms clock w13;
                                (mae, mx) = compare_outputs outA outB;
                                cpu_ms = t1 - t0;
                                gpu_ms = tg1 - tg0
                            in Some (Reported
                                 \<lparr>r_id = ident, r_dims = take (nat ndims) dims,
                                  r_estMB = est_mb dims ndims,
                                  r_adapter = (case adapter of
                                                 None \<Rightarrow> ''{}''
                                               | Some t \<Rightarrow> if t \<noteq> [] then t else ''{}''),
                                  r_gpu_init_ms = t_gpu_init_e - t_gpu_init_s,
                                  r_cpu_ms = cpu_ms, r_gpu_ms = gpu_ms,
                                  r_speedup = speedup cpu_ms gpu_ms,
                                  r_mae = mae, r_mx = mx,
                                  r_outA = (case outA of None \<Rightarrow> [] | Some t \<Rightarrow> t),
                                  r_outB = (case outB of None \<Rightarrow> [] | Some t \<Rightarrow> t)\<rparr>,
                                 w14)))))"

text \<open>The ten cases of \<open>main\<close>, in order.\<close>

definition suite :: "(string \<times> int list) list" where
  "suite =
     [(''S1'', [784, 64, 10]), (''S2'', [784, 128, 10]), (''S3'', [784, 256, 10]),
      (''M1'', [784, 256, 256, 10]), (''M2'', [784, 384, 384, 10]), (''M3'', [784, 512, 512, 10]),
      (''L1'', [784, 768, 768, 768, 10]), (''L2'', [784, 1024, 1024, 1024, 10]),
      (''XL1'', [784, 1536, 1536, 1536, 1536, 10]), (''XL2'', [784, 2048, 2048, 2048, 2048, 10])]"

fun run_all ::
  "('l \<Rightarrow> rat \<times> 'l) \<Rightarrow> 'l ParagonAPI \<Rightarrow> (string \<times> int list) list \<Rightarrow> 'l world
     \<Rightarrow> (outcome list \<times> 'l world) option" where
  "run_all clock api [] w = Some ([], w)"
| "run_all clock api (c # cs) w =
     (case run_one clock api (fst c) (snd c) (int (length (snd c))) w of
        None \<Rightarrow> None
      | Some (r, w') \<Rightarrow>
          (case run_all clock api cs w' of
             None \<Rightarrow> None
           | Some (rs, w'') \<Rightarrow> Some (r # rs, w'')))"

text \<open>
  \<open>main\<close>: \<open>argv\<close> holds the program name and the arguments; the library is the
  first argument unless that begins with a dash. The result is the exit status with the
  outcome of every case, or \<open>None\<close> when the process did not reach \<open>return 0\<close>.
\<close>

definition library_arg :: "string list \<Rightarrow> string option" where
  "library_arg argv =
     (if 1 < length argv \<and> \<not> prefix ''-'' (argv ! 1) then Some (argv ! 1) else None)"

definition main ::
  "(string option \<Rightarrow> 'l shared_object option) \<Rightarrow> ('l \<Rightarrow> rat \<times> 'l) \<Rightarrow> string list \<Rightarrow> 'l world
     \<Rightarrow> (int \<times> outcome list \<times> 'l world) option" where
  "main dlopen clock argv w =
     (let (rc, api) = paragon_load dlopen (library_arg argv)
      in case run_all clock api suite w of
           None \<Rightarrow> None
         | Some (rs, w') \<Rightarrow> (let api' = paragon_unload (Some api) in Some (0, rs, w')))"

section \<open>Notions of the specification\<close>

text \<open>
  The recurrence as the specification writes it, on natural numbers with the modulus
  written out, and element \<open>i\<close> of the input vector: the state after \<open>i + 1\<close> steps from
  the seed 123, divided by 4294967295.
\<close>

definition lcg_next :: "nat \<Rightarrow> nat" where
  "lcg_next s = (s * 1664525 + 1013904223) mod 2 ^ 32"

definition lcg_element :: "nat \<Rightarrow> rat" where
  "lcg_element i = of_nat ((lcg_next ^^ Suc i) 123) / 4294967295"

definition word_step :: "32 word \<Rightarrow> 32 word" where
  "word_step s = s * 1664525 + 1013904223"


text \<open>Texts separated by commas, and the shape of a literal printed with six decimals.\<close>

fun join_comma :: "string list \<Rightarrow> string" where
  "join_comma [] = []"
| "join_comma [x] = x"
| "join_comma (x # y # ys) = x @ '','' @ join_comma (y # ys)"

definition fixed6_literal :: "string \<Rightarrow> bool" where
  "fixed6_literal s \<longleftrightarrow>
     (let ip = takeWhile isdigit_c s; r = dropWhile isdigit_c s
      in ip \<noteq> [] \<and> length r = 7 \<and> hd r = CHR ''.'' \<and> list_all isdigit_c (tl r))"

text \<open>
  The bytes that \<open>strtod\<close> can consume: white space, signs, letters and digits, the
  point, parentheses and the underscore.
\<close>

definition numeric_byte :: "char \<Rightarrow> bool" where
  "numeric_byte c \<longleftrightarrow>
     isspace_c c \<or> isalnum_c c \<or> c = CHR ''+'' \<or> c = CHR ''-'' \<or> c = CHR ''.''
       \<or> c = CHR ''('' \<or> c = CHR '')'' \<or> c = CHR ''_''"

text \<open>The argument texts of the calls of \<open>Forward\<close> in a record of calls.\<close>

fun forward_args_in :: "ext_call list \<Rightarrow> string list" where
  "forward_args_in [] = []"
| "forward_args_in (CallCall h m a # cs) =
     (if m = ''Forward'' then a # forward_args_in cs else forward_args_in cs)"
| "forward_args_in (CallNew5 l a t g x # cs) = forward_args_in cs"
| "forward_args_in (CallNew3 l a t # cs) = forward_args_in cs"

text \<open>
  The four construction strategies, the strategy as a function of which capabilities are
  bound, and the strategy that a list of recorded calls shows.
\<close>

datatype strategy = Direct5 | Direct3 | Dispatch | Unavailable

definition strategy_of :: "bool \<Rightarrow> bool \<Rightarrow> bool \<Rightarrow> strategy" where
  "strategy_of b5 b3 bc =
     (if b5 then Direct5 else if b3 then Direct3 else if bc then Dispatch else Unavailable)"

fun branch_taken :: "ext_call list \<Rightarrow> strategy option" where
  "branch_taken [] = Some Unavailable"
| "branch_taken [CallNew5 l a t g x] = Some Direct5"
| "branch_taken [CallNew3 l a t] = Some Direct3"
| "branch_taken [CallCall h m args] =
     (if h = 0 \<and> m = ''NewNetworkFloat32'' then Some Dispatch else None)"
| "branch_taken (c # d # cs) = None"

definition unbound_api :: "'l ParagonAPI" where
  "unbound_api = \<lparr>so = None, New5 = None, New3 = None, Call = None\<rparr>"

section \<open>An example library\<close>

text \<open>
  A small library whose state counts the calls it has received, and a clock that
  advances by one millisecond at each reading. They serve as concrete inputs.
\<close>

definition example_New5 :: "nat fn_NewNetworkFloat32_5" where
  "example_New5 l a t g x st = (Some ''7'', Suc st)"

definition example_New3 :: "nat fn_NewNetworkFloat32_3" where
  \<open>example_New3 l a t st = (Some ''{"id": 9}'', Suc st)\<close>

definition example_Call :: "nat fn_Call" where
  \<open>example_Call h m a st =
     (if m = ''NewNetworkFloat32'' then (Some ''{"handle": 3}'', Suc st)
      else if m = ''ExtractOutput''
      then (Some (if st < 15 then ''[[1,2,3]]'' else ''[[1,2,5,7]]''), Suc st)
      else (None, Suc st))\<close>

definition example_so :: "nat shared_object" where
  "example_so =
     \<lparr>sym5 = (\<lambda>n. None), sym3 = (\<lambda>n. None),
      symCall = (\<lambda>n. if n = ''Teleport_Call'' then Some example_Call else None)\<rparr>"

definition example_dlopen :: "string option \<Rightarrow> nat shared_object option" where
  "example_dlopen p = Some example_so"

definition example_api :: "nat ParagonAPI" where
  "example_api = \<lparr>so = Some example_so, New5 = None, New3 = None, Call = Some example_Call\<rparr>"

definition example_api3 :: "nat ParagonAPI" where
  "example_api3 = \<lparr>so = None, New5 = None, New3 = Some example_New3, Call = Some example_Call\<rparr>"

definition example_api5 :: "nat ParagonAPI" where
  "example_api5 =
     \<lparr>so = None, New5 = Some example_New5, New3 = Some example_New3, Call = Some example_Call\<rparr>"

text \<open>A library that answers every call with the empty text.\<close>

definition silent_Call :: "nat fn_Call" where
  "silent_Call h m a st = (Some [], Suc st)"

definition silent_api :: "nat ParagonAPI" where
  "silent_api = \<lparr>so = None, New5 = None, New3 = None, Call = Some silent_Call\<rparr>"

definition example_clock :: "nat \<Rightarrow> rat \<times> nat" where
  "example_clock st = (of_nat st, Suc st)"

definition example_world :: "nat world" where
  "example_world = \<lparr>env = 0, calls = []\<rparr>"

section \<open>Facts about the C library functions\<close>

lemma isdigit_char_of: "d < 10 \<Longrightarrow> isdigit_c (char_of (48 + d :: nat))"
  by (simp add: isdigit_c_def)

lemma digit_val_char_of: "d < 10 \<Longrightarrow> digit_val (char_of (48 + d :: nat)) = d"
  by (simp add: digit_val_def)

lemma show_nat_digits: "list_all isdigit_c (show_nat n)"
  by (induction n rule: show_nat.induct) (subst show_nat.simps, simp add: isdigit_char_of)

lemma show_nat_nonempty: "show_nat n \<noteq> []"
  by (subst show_nat.simps) simp

lemma length_show_nat: "0 < k \<Longrightarrow> n < 10 ^ k \<Longrightarrow> length (show_nat n) \<le> k"
proof (induction n arbitrary: k rule: show_nat.induct)
  case (1 n)
  show ?case
  proof (cases "n < 10")
    case True
    with 1(2) show ?thesis by (subst show_nat.simps) simp
  next
    case False
    from False 1(3) have k1: "1 < k"
      by (metis One_nat_def Suc_lessI \<open>0 < k\<close> power_one_right)
    then obtain j where j: "k = Suc j" "0 < j" by (cases k) auto
    have "n div 10 < 10 ^ j" using 1(3) j by (simp add: less_mult_imp_div_less mult.commute)
    from 1(1) [OF False j(2) this] j False show ?thesis
      by (subst show_nat.simps) simp
  qed
qed

lemma dec_val_snoc: "dec_val (ds @ [c]) = 10 * dec_val ds + digit_val c"
  by (simp add: dec_val_def)

lemma dec_val_show_nat: "dec_val (show_nat n) = n"
proof (induction n rule: show_nat.induct)
  case (1 n)
  show ?case
  proof (cases "n < 10")
    case True
    then show ?thesis by (subst show_nat.simps) (simp add: dec_val_def digit_val_char_of)
  next
    case False
    have "dec_val (show_nat n) =
        10 * dec_val (show_nat (n div 10)) + digit_val (char_of (48 + n mod 10))"
      using False by (subst show_nat.simps) (simp add: dec_val_snoc)
    with 1 [OF False] show ?thesis by (simp add: digit_val_char_of)
  qed
qed

lemma digit_not_special:
  "isdigit_c c \<Longrightarrow>
     \<not> isspace_c c \<and> c \<noteq> CHR ''-'' \<and> c \<noteq> CHR ''+'' \<and> \<not> skip_char c \<and> c \<noteq> CHR 0x22"
  by (auto simp: isdigit_c_def isspace_c_def skip_char_def)

lemma takeWhile_digits_stop:
  "list_all isdigit_c ds \<Longrightarrow> r = [] \<or> \<not> isdigit_c (hd r) \<Longrightarrow> takeWhile isdigit_c (ds @ r) = ds"
  by (cases r) (auto simp: list_all_iff takeWhile_append2)

lemma strtoll_c_Nil: "strtoll_c [] = (0, 0)"
  by (simp add: strtoll_c_def)






lemma show_int_nonempty: "show_int n \<noteq> []"
  by (simp add: show_int_def show_nat_nonempty)







lemma snprintf_fits: "length s < n \<Longrightarrow> snprintf n s = s"
  by (simp add: snprintf_def)

section \<open>Facts about handle decoding\<close>

lemma parse_handle_None: "paragon_parse_handle None = - 1"
  by (simp add: paragon_parse_handle_def)

lemma parse_handle_Nil: "paragon_parse_handle (Some []) = 0"
  by (simp add: paragon_parse_handle_def strtoll_c_Nil)











lemma parse_handle_ex_three: \<open>paragon_parse_handle (Some ''{"handle": 3}'') = 3\<close>
  by code_simp























section \<open>Facts about the construction and the calls\<close>

lemma length_bool_json: "length (bool_json b) \<le> 5"
  by (simp add: bool_json_def)

lemma new_net_args_fit:
  "snprintf (length l + length a + length t + 64)
     (''['' @ l @ '','' @ a @ '','' @ t @ '','' @ bool_json g @ '','' @ bool_json x @ '']'')
   = ''['' @ l @ '','' @ a @ '','' @ t @ '','' @ bool_json g @ '','' @ bool_json x @ '']''"
  using length_bool_json [of g] length_bool_json [of x]
  by (intro snprintf_fits) simp

lemma new_net_calls:
  "calls (snd (paragon_new_net_any api l a t g x w)) =
     calls w @
       (case New5 api of
          Some f5 \<Rightarrow> [CallNew5 l a t g x]
        | None \<Rightarrow>
            (case New3 api of
               Some f3 \<Rightarrow> [CallNew3 l a t]
             | None \<Rightarrow>
                 (case Call api of
                    Some f \<Rightarrow>
                      [CallCall 0 ''NewNetworkFloat32''
                         (''['' @ l @ '','' @ a @ '','' @ t @ '','' @ bool_json g @ '',''
                            @ bool_json x @ '']'')]
                  | None \<Rightarrow> [])))"
  by (simp add: paragon_new_net_any_def invoke_New5_def invoke_New3_def invoke_Call_def
        new_net_args_fit [simplified] Let_def split: prod.splits option.splits)

lemma new_net_unbound: "paragon_new_net_any unbound_api l a t g x w = (None, w)"
  by (simp add: paragon_new_net_any_def unbound_api_def)

lemma call0_unbound: "paragon_call0 (Some unbound_api) h m w = (None, w)"
  by (simp add: paragon_call0_def unbound_api_def)

lemma try_gpu_enable_unbound: "try_gpu_enable (Some unbound_api) h w = w"
  by (simp add: try_gpu_enable_def unbound_api_def)

lemma load_failed:
  "so (snd (paragon_load dlopen so_path)) = None \<Longrightarrow>
     paragon_load dlopen so_path = (1, unbound_api)"
  by (auto simp: paragon_load_def unbound_api_def Let_def split: if_splits)

lemma run_one_construction_failed:
  assumes "paragon_new_net_any api (json_layers dims ndims) (json_activs ndims)
             (json_trainable ndims) False False w = (newr, w1)"
    and "paragon_parse_handle newr \<le> 0"
  shows "run_one clock api ident dims ndims w = Some (ConstructionFailed newr, w1)"
  using assms by (simp add: run_one_def)

lemma run_one_unbound:
  "run_one clock unbound_api ident dims ndims w = Some (ConstructionFailed None, w)"
  by (simp add: run_one_def new_net_unbound parse_handle_None)

lemma run_all_unbound:
  "run_all clock unbound_api cs w = Some (map (\<lambda>c. ConstructionFailed None) cs, w)"
  by (induction cs) (simp_all add: run_one_unbound)

lemma main_load_failed:
  assumes "so (snd (paragon_load dlopen (library_arg argv))) = None"
  shows "main dlopen clock argv w = Some (0, replicate 10 (ConstructionFailed None), w)"
proof -
  have "map (\<lambda>c. ConstructionFailed None) suite = replicate 10 (ConstructionFailed None)"
    by (simp add: suite_def eval_nat_numeral)
  then show ?thesis
    using load_failed [OF assms] by (simp add: main_def run_all_unbound)
qed

lemma forward_args_in_append:
  "forward_args_in (xs @ ys) = forward_args_in xs @ forward_args_in ys"
  by (induction xs rule: forward_args_in.induct) simp_all

lemma new_net_forward:
  "paragon_new_net_any api l a t g x w = (r, w') \<Longrightarrow>
     forward_args_in (calls w') = forward_args_in (calls w)"
  by (auto simp: paragon_new_net_any_def invoke_New5_def invoke_New3_def invoke_Call_def
        forward_args_in_append Let_def split: prod.splits option.splits)

lemma call0_forward:
  "paragon_call0 api h m w = (r, w') \<Longrightarrow> m \<noteq> ''Forward'' \<Longrightarrow>
     forward_args_in (calls w') = forward_args_in (calls w)"
  by (auto simp: paragon_call0_def invoke_Call_def forward_args_in_append
        split: prod.splits option.splits)

lemma now_ms_calls: "now_ms clock w = (t, w') \<Longrightarrow> calls w' = calls w"
  by (auto simp: now_ms_def split: prod.splits)

lemma try_gpu_enable_forward:
  "forward_args_in (calls (try_gpu_enable api h w)) = forward_args_in (calls w)"
  by (auto simp: try_gpu_enable_def paragon_call0_def invoke_Call_def forward_args_in_append
        split: prod.splits option.splits)

lemma call_ptr_forward:
  "call_ptr api h ''Forward'' a w = Some (r, w') \<Longrightarrow>
     forward_args_in (calls w') = forward_args_in (calls w) @ [a]"
  by (auto simp: call_ptr_def invoke_Call_def forward_args_in_append
        split: prod.splits option.splits)

lemma run_one_forward:
  assumes "run_one clock api ident dims ndims w = Some (res, w')"
  shows "forward_args_in (calls w') =
           forward_args_in (calls w) @
             (case res of
                ConstructionFailed r \<Rightarrow> []
              | Reported r \<Rightarrow> [forward_args json_fixed784, forward_args json_fixed784])"
  using assms
  apply (simp add: run_one_def Let_def split: prod.splits if_splits option.splits)
   apply (auto dest!: new_net_forward call0_forward now_ms_calls call_ptr_forward
      simp: try_gpu_enable_forward)
  done

lemma run_all_forward:
  "run_all clock api cs w = Some (rs, w') \<Longrightarrow>
     set (forward_args_in (calls w')) \<subseteq>
       set (forward_args_in (calls w)) \<union> {forward_args json_fixed784}"
proof (induction cs arbitrary: w rs)
  case Nil
  then show ?case by auto
next
  case (Cons c cs)
  from Cons.prems obtain r w1 rs' where
    one: "run_one clock api (fst c) (snd c) (int (length (snd c))) w = Some (r, w1)"
    and rest: "run_all clock api cs w1 = Some (rs', w')"
    by (auto split: option.splits)
  have "set (forward_args_in (calls w1)) \<subseteq>
      set (forward_args_in (calls w)) \<union> {forward_args json_fixed784}"
    using run_one_forward [OF one] by (cases r) auto
  with Cons.IH [OF rest] show ?case by blast
qed

lemma main_forward:
  "main dlopen clock argv w = Some (rc, rs, w') \<Longrightarrow>
     set (forward_args_in (calls w')) \<subseteq>
       set (forward_args_in (calls w)) \<union> {forward_args json_fixed784}"
  by (auto simp: main_def Let_def split: prod.splits option.splits dest!: run_all_forward)


section \<open>Facts about the input vector\<close>

lemma unat_word_step: "unat (word_step s) = lcg_next (unat s)"
  by (simp add: word_step_def lcg_next_def unat_word_ariths mod_simps)

lemma unat_word_steps: "unat ((word_step ^^ k) s) = (lcg_next ^^ k) (unat s)"
  by (induction k) (simp_all add: unat_word_step)

lemma fixed784_loop_eq:
  "i \<le> 784 \<Longrightarrow>
   fixed784_loop i s vs b =
     (vs @ map (\<lambda>k. of_nat (unat ((word_step ^^ Suc k) s)) / 4294967295) [0..<784 - i],
      b @ concat (map (\<lambda>k. (if i + k \<noteq> 0 then '','' else []) @
                     fmt_6f (of_nat (unat ((word_step ^^ Suc k) s)) / 4294967295)) [0..<784 - i]))"
proof (induction "784 - i" arbitrary: i s vs b)
  case 0
  then show ?case by (simp add: fixed784_loop.simps)
next
  case (Suc n)
  then have i: "i < 784" and n: "n = 784 - (i + 1)" and le: "i + 1 \<le> 784" by simp_all
  have split: "[0..<784 - i] = 0 # map Suc [0..<784 - (i + 1)]"
    using i by (metis Suc.hyps(2) map_Suc_upt n upt_conv_Cons zero_less_Suc)
  have step: "fixed784_loop i s vs b =
      fixed784_loop (i + 1) (word_step s) (vs @ [of_nat (unat (word_step s)) / 4294967295])
        (b @ (if i \<noteq> 0 then '','' else []) @ fmt_6f (of_nat (unat (word_step s)) / 4294967295))"
    using i by (subst fixed784_loop.simps) (simp add: Let_def word_step_def append_buf_def)
  show ?case
    unfolding step Suc.hyps(1) [OF n le] split
    by (simp add: funpow_swap1 comp_def)
qed

lemma fixed784_vector_eq: "fixed784_vector = map lcg_element [0..<784]"
  by (simp add: fixed784_vector_def fixed784_loop_eq lcg_element_def unat_word_steps
      del: funpow.simps)

lemma concat_join_comma:
  "concat (map (\<lambda>k. (if k \<noteq> 0 then '','' else []) @ f k) [0..<n]) = join_comma (map f [0..<n])"
proof (induction n)
  case 0
  then show ?case by simp
next
  case (Suc n)
  have app: "join_comma (xs @ [y]) = (if xs = [] then y else join_comma xs @ '','' @ y)" for xs y
    by (induction xs rule: join_comma.induct) simp_all
  show ?case using Suc by (simp add: app)
qed

lemma json_fixed784_eq:
  "json_fixed784 = ''[['' @ join_comma (map fmt_6f fixed784_vector) @ '']]''"
  by (simp add: json_fixed784_def fixed784_loop_eq append_buf_def fixed784_vector_def
      concat_join_comma [symmetric] comp_def del: funpow.simps)

lemma lcg_element_0: "lcg_element 0 = of_nat ((123 * 1664525 + 1013904223) mod 2 ^ 32) / 4294967295"
  by (simp add: lcg_element_def lcg_next_def)

lemma fmt_6f_literal:
  assumes "0 \<le> v"
  shows "fixed6_literal (fmt_6f v)"
proof -
  define m where "m = nat (round_half_even (\<bar>v\<bar> * 1000000))"
  define ip where "ip = show_nat (m div 1000000)"
  define fp where "fp = replicate (6 - length (show_nat (m mod 1000000))) CHR ''0'' @ show_nat (m mod 1000000)"
  have fmt: "fmt_6f v = ip @ CHR ''.'' # fp"
    using assms by (simp add: fmt_6f_def Let_def m_def ip_def fp_def)
  have ipd: "\<forall>c\<in>set ip. isdigit_c c" "ip \<noteq> []"
    using show_nat_digits [of "m div 1000000"] show_nat_nonempty
    by (simp_all add: ip_def list_all_iff)
  have "length (show_nat (m mod 1000000)) \<le> 6"
    by (rule length_show_nat) simp_all
  then have fpl: "length fp = 6" by (simp add: fp_def)
  have fpd: "list_all isdigit_c fp"
    using show_nat_digits [of "m mod 1000000"]
    by (auto simp: fp_def list_all_iff isdigit_c_def)
  have dot: "\<not> isdigit_c CHR ''.''" by (simp add: isdigit_c_def)
  have tw: "takeWhile isdigit_c (ip @ CHR ''.'' # fp) = ip"
    using ipd(1) dot by (simp add: takeWhile_append2)
  have dw: "dropWhile isdigit_c (ip @ CHR ''.'' # fp) = CHR ''.'' # fp"
    using ipd(1) dot by (simp add: dropWhile_append2)
  show ?thesis
    unfolding fixed6_literal_def fmt tw dw Let_def
    using ipd(2) fpl fpd by simp
qed

lemma lcg_element_nonneg: "0 \<le> lcg_element i"
  by (simp add: lcg_element_def)

lemma forward_args_fit: "forward_args xin = ''['' @ xin @ '']''"
  by (simp add: forward_args_def snprintf_def)

section \<open>Facts about \<open>strtod\<close>\<close>

lemma isxdigit_alnum: "isxdigit_c c \<Longrightarrow> isalnum_c c"
  by (auto simp: isxdigit_c_def isalnum_c_def)

lemma isdigit_alnum: "isdigit_c c \<Longrightarrow> isalnum_c c"
  by (simp add: isalnum_c_def)

lemma tolower_letter_alnum:
  "(97::nat) \<le> of_char (tolower_c c) \<Longrightarrow> of_char (tolower_c c) \<le> (122::nat) \<Longrightarrow> isalnum_c c"
  by (simp add: isalnum_c_def)

lemma list_all_takeWhile: "list_all P (takeWhile P xs)"
  by (induction xs) auto

lemma take_takeWhile_length: "take (length (takeWhile P xs)) xs = takeWhile P xs"
  by (induction xs) auto

lemma take_takeWhile_more:
  "dropWhile P xs = c # t \<Longrightarrow>
     take (length (takeWhile P xs) + 1 + k) xs = takeWhile P xs @ c # take k t"
proof -
  assume d: "dropWhile P xs = c # t"
  have "xs = takeWhile P xs @ c # t" using d by (metis takeWhile_dropWhile_id)
  then have "take (length (takeWhile P xs) + 1 + k) xs
      = take (length (takeWhile P xs) + 1 + k) (takeWhile P xs @ c # t)" by simp
  then show ?thesis by simp
qed

lemma mantissa_consumed:
  assumes "mantissa isd s = (ip, fp, n)" "\<And>c. isd c \<Longrightarrow> numeric_byte c"
  shows "n \<le> length s \<and> list_all numeric_byte (take n s)"
proof (cases "dropWhile isd s")
  case Nil
  have n: "n = length (takeWhile isd s)"
    using assms(1) unfolding mantissa_def Nil by (auto simp: Let_def)
  show ?thesis
    unfolding n take_takeWhile_length
    using assms(2) list_all_takeWhile [of isd s]
    by (auto simp: length_takeWhile_le list_all_iff)
next
  case (Cons c t)
  have s: "s = takeWhile isd s @ c # t" using Cons by (metis takeWhile_dropWhile_id)
  show ?thesis
  proof (cases "c = CHR ''.''")
    case False
    then have n: "n = length (takeWhile isd s)"
      using assms(1) Cons by (auto simp: mantissa_def Let_def)
    show ?thesis
      unfolding n take_takeWhile_length
      using assms(2) list_all_takeWhile [of isd s]
      by (auto simp: length_takeWhile_le list_all_iff)
  next
    case True
    then have n: "n = length (takeWhile isd s) + 1 + length (takeWhile isd t)"
      using assms(1) Cons by (auto simp: mantissa_def Let_def)
    have le: "n \<le> length s"
      by (subst s) (simp add: n length_takeWhile_le)
    have tk: "take n s = takeWhile isd s @ c # takeWhile isd t"
      unfolding n take_takeWhile_more [OF Cons] by (simp add: take_takeWhile_length)
    have "list_all numeric_byte (takeWhile isd s @ c # takeWhile isd t)"
      using assms(2) list_all_takeWhile [of isd s] list_all_takeWhile [of isd t] True
      by (auto simp: list_all_iff numeric_byte_def)
    with le tk show ?thesis by simp
  qed
qed

lemma exp_part_consumed:
  assumes "exp_part m s = (e, n)" "m = CHR ''e'' \<or> m = CHR ''p''"
  shows "n \<le> length s \<and> list_all numeric_byte (take n s)"
proof (cases "n = 0")
  case True
  then show ?thesis by simp
next
  case False
  then obtain c t where s: "s = c # t"
    using assms(1) by (cases s) (auto simp: exp_part_def)
  define sg :: nat where "sg = (if t \<noteq> [] \<and> (hd t = CHR ''-'' \<or> hd t = CHR ''+'') then 1 else 0)"
  define ds where "ds = takeWhile isdigit_c (drop sg t)"
  from assms(1) False have m: "tolower_c c = m" and n: "n = 1 + sg + length ds"
    by (auto simp: exp_part_def s Let_def sg_def ds_def split: if_splits)
  have c: "numeric_byte c"
    using m assms(2) by (auto simp: numeric_byte_def isalnum_c_def)
  have sgt: "sg \<le> length t" by (cases t) (simp_all add: sg_def)
  have t: "t = take sg t @ drop sg t" by simp
  have dsl: "length ds \<le> length (drop sg t)" unfolding ds_def by (rule length_takeWhile_le)
  have le: "n \<le> length s" using n s sgt dsl by simp
  have tk: "take n s = c # take sg t @ ds"
  proof -
    have "take n s = c # take (sg + length ds) t" by (simp add: n s)
    also have "take (sg + length ds) t = take sg t @ take (length ds) (drop sg t)"
      by (simp add: take_add)
    also have "take (length ds) (drop sg t) = ds"
      unfolding ds_def by (rule take_takeWhile_length)
    finally show ?thesis .
  qed
  have sign: "list_all numeric_byte (take sg t)"
    by (cases t) (auto simp: sg_def numeric_byte_def)
  have digits: "list_all numeric_byte ds"
    using list_all_takeWhile [of isdigit_c "drop sg t"]
    by (auto simp: ds_def list_all_iff numeric_byte_def isdigit_alnum)
  show ?thesis using le tk c sign digits by simp
qed

lemma nan_tail_consumed: "nan_tail s \<le> length s \<and> list_all numeric_byte (take (nan_tail s) s)"
proof (cases s)
  case Nil
  then show ?thesis by (simp add: nan_tail_def)
next
  case (Cons c t)
  define cs where "cs = takeWhile (\<lambda>x. isalnum_c x \<or> x = CHR ''_'') t"
  show ?thesis
  proof (cases "c = CHR ''('' \<and> drop (length cs) t \<noteq> [] \<and> hd (drop (length cs) t) = CHR '')''")
    case False
    then have "nan_tail s = 0" by (auto simp: nan_tail_def Cons Let_def cs_def)
    then show ?thesis by simp
  next
    case True
    then have n: "nan_tail s = length cs + 2" by (simp add: nan_tail_def Cons Let_def cs_def)
    obtain d r where dr: "drop (length cs) t = d # r" and d: "d = CHR '')''"
      using True by (cases "drop (length cs) t") auto
    have t: "t = cs @ d # r"
      using dr by (metis append_take_drop_id cs_def take_takeWhile_length)
    have all: "list_all numeric_byte cs"
      using list_all_takeWhile [of "\<lambda>x. isalnum_c x \<or> x = CHR ''_''" t]
      by (auto simp: cs_def list_all_iff numeric_byte_def)
    have tk: "take (length cs + 2) (c # cs @ d # r) = c # cs @ [d]" by simp
    have s': "s = c # cs @ d # r" using Cons t by simp
    have "take (length cs + 2) s = c # cs @ [d]"
      unfolding s' by simp
    then have "take (nan_tail s) s = c # cs @ [d]"
      by (simp only: n)
    moreover have "nan_tail s \<le> length s"
    proof -
      have "length s = length cs + 2 + length r" by (subst s') simp
      with n show ?thesis by simp
    qed
    ultimately show ?thesis using all True d by (simp add: numeric_byte_def)
  qed
qed

lemma ci_prefix_consumed:
  assumes "ci_prefix w s" "\<forall>c. tolower_c c \<in> set w \<longrightarrow> numeric_byte c"
  shows "length w \<le> length s \<and> list_all numeric_byte (take (length w) s)"
proof -
  from assms(1) have p: "prefix w (map tolower_c s)" by (simp add: ci_prefix_def)
  then have len: "length w \<le> length s" using prefix_length_le by fastforce
  from p have "w = take (length w) (map tolower_c s)"
    by (metis append_eq_conv_conj prefixE)
  then have w: "w = map tolower_c (take (length w) s)" by (simp add: take_map)
  have "numeric_byte c" if "c \<in> set (take (length w) s)" for c
  proof -
    have "tolower_c c \<in> set (map tolower_c (take (length w) s))" using that by simp
    with w have "tolower_c c \<in> set w" by simp
    with assms(2) show ?thesis by blast
  qed
  with len show ?thesis by (simp add: list_all_iff)
qed

lemma tolower_zero:
  assumes "tolower_c c = CHR ''0''"
  shows "isdigit_c c"
proof (cases "(65::nat) \<le> of_char c \<and> of_char c \<le> (90::nat)")
  case True
  then have "tolower_c c = char_of (of_char c + (32::nat))" by (simp add: tolower_c_def)
  then have "(of_char (tolower_c c) :: nat) = (of_char c + 32) mod 256" by simp
  with True have "(of_char (tolower_c c) :: nat) = of_char c + 32" by simp
  with assms True show ?thesis by simp
next
  case False
  then have "tolower_c c = c" by (auto simp: tolower_c_def)
  with assms show ?thesis by (simp add: isdigit_c_def)
qed

lemma tolower_letter:
  "tolower_c c = x \<Longrightarrow> (97::nat) \<le> of_char x \<Longrightarrow> of_char x \<le> (122::nat) \<Longrightarrow> isalnum_c c"
  by (simp add: isalnum_c_def)

lemma lower_word_numeric:
  assumes "tolower_c c \<in> set ''infinity'' \<or> tolower_c c \<in> set ''nan'' \<or> tolower_c c \<in> set ''0x''"
  shows "numeric_byte c"
proof -
  from assms consider "tolower_c c = CHR ''0''"
    | x where "tolower_c c = x" "x \<in> set ''infintyax''"
    by auto
  then have "isalnum_c c"
  proof cases
    case 1
    then show ?thesis using tolower_zero isdigit_alnum by blast
  next
    case 2
    from 2(2) have "(97::nat) \<le> of_char x \<and> of_char x \<le> (122::nat)" by auto
    with 2(1) show ?thesis using tolower_letter by blast
  qed
  then show ?thesis by (simp add: numeric_byte_def)
qed

lemma numeric_prefix_add:
  assumes "a \<le> length s \<and> list_all numeric_byte (take a s)"
    and "b \<le> length (drop a s) \<and> list_all numeric_byte (take b (drop a s))"
  shows "a + b \<le> length s \<and> list_all numeric_byte (take (a + b) s)"
  using assms by (auto simp: take_add)

lemma strtod_body_consumed:
  assumes "strtod_body s = (v, n)"
  shows "n \<le> length s \<and> list_all numeric_byte (take n s)"
proof -
  have word: "length w \<le> length s \<and> list_all numeric_byte (take (length w) s)"
    if "ci_prefix w s" "w = ''infinity'' \<or> w = ''inf'' \<or> w = ''nan'' \<or> w = ''0x''" for w
  proof (rule ci_prefix_consumed [OF that(1)], intro allI impI)
    fix c
    assume "tolower_c c \<in> set w"
    with that(2) have "tolower_c c \<in> set ''infinity'' \<or> tolower_c c \<in> set ''nan''
        \<or> tolower_c c \<in> set ''0x''"
      by auto
    then show "numeric_byte c" by (rule lower_word_numeric)
  qed
  obtain xi xf xn where mx: "mantissa isxdigit_c (drop 2 s) = (xi, xf, xn)"
    by (cases "mantissa isxdigit_c (drop 2 s)") auto
  obtain xe xen where ex: "exp_part CHR ''p'' (drop (2 + xn) s) = (xe, xen)"
    by (cases "exp_part CHR ''p'' (drop (2 + xn) s)") auto
  obtain di df dn where md: "mantissa isdigit_c s = (di, df, dn)"
    by (cases "mantissa isdigit_c s") auto
  obtain de den where ed: "exp_part CHR ''e'' (drop dn s) = (de, den)"
    by (cases "exp_part CHR ''e'' (drop dn s)") auto
  have w8: "8 \<le> length s \<and> list_all numeric_byte (take 8 s)" if "ci_prefix ''infinity'' s"
  proof -
    have l: "length ''infinity'' = 8" by simp
    show ?thesis using word [of "''infinity''"] that unfolding l by blast
  qed
  have w3: "3 \<le> length s \<and> list_all numeric_byte (take 3 s)"
    if "ci_prefix ''inf'' s \<or> ci_prefix ''nan'' s"
  proof -
    have l: "length ''inf'' = 3" "length ''nan'' = 3" by simp_all
    show ?thesis using word [of "''inf''"] word [of "''nan''"] that unfolding l by blast
  qed
  have w2: "2 \<le> length s \<and> list_all numeric_byte (take 2 s)" if "ci_prefix ''0x'' s"
  proof -
    have l: "length ''0x'' = 2" by simp
    show ?thesis using word [of "''0x''"] that unfolding l by blast
  qed
  have hexd: "numeric_byte c" if "isxdigit_c c" for c
    using that by (simp add: numeric_byte_def isxdigit_alnum)
  have decd: "numeric_byte c" if "isdigit_c c" for c
    using that by (simp add: numeric_byte_def isdigit_alnum)
  consider (inf8) "ci_prefix ''infinity'' s" "n = 8"
    | (inf3) "ci_prefix ''inf'' s" "n = 3"
    | (nan) "ci_prefix ''nan'' s" "n = 3 + nan_tail (drop 3 s)"
    | (hex) "ci_prefix ''0x'' s" "n = 2 + xn + xen"
    | (dec) "n = dn + den"
    | (none) "n = 0"
    using assms mx ex md ed
    by (auto simp: strtod_body_def Let_def split: if_splits)
  then show ?thesis
  proof cases
    case inf8
    with w8 show ?thesis by simp
  next
    case inf3
    with w3 show ?thesis by simp
  next
    case nan
    have "3 + nan_tail (drop 3 s) \<le> length s
        \<and> list_all numeric_byte (take (3 + nan_tail (drop 3 s)) s)"
      using w3 nan(1) nan_tail_consumed [of "drop 3 s"]
      by (intro numeric_prefix_add) simp_all
    with nan(2) show ?thesis by simp
  next
    case hex
    have a: "2 \<le> length s \<and> list_all numeric_byte (take 2 s)"
      using w2 hex(1) by simp
    have b: "xn \<le> length (drop 2 s) \<and> list_all numeric_byte (take xn (drop 2 s))"
      using mantissa_consumed [OF mx] hexd by blast
    have ab: "2 + xn \<le> length s \<and> list_all numeric_byte (take (2 + xn) s)"
      using a b by (rule numeric_prefix_add)
    have c: "xen \<le> length (drop (2 + xn) s) \<and> list_all numeric_byte (take xen (drop (2 + xn) s))"
      using exp_part_consumed [OF ex] by blast
    have "2 + xn + xen \<le> length s \<and> list_all numeric_byte (take (2 + xn + xen) s)"
      using ab c by (rule numeric_prefix_add)
    with hex(2) show ?thesis by simp
  next
    case dec
    have a: "dn \<le> length s \<and> list_all numeric_byte (take dn s)"
      using mantissa_consumed [OF md] decd by blast
    have b: "den \<le> length (drop dn s) \<and> list_all numeric_byte (take den (drop dn s))"
      using exp_part_consumed [OF ed] by blast
    have "dn + den \<le> length s \<and> list_all numeric_byte (take (dn + den) s)"
      using a b by (rule numeric_prefix_add)
    with dec show ?thesis by simp
  next
    case none
    then show ?thesis by simp
  qed
qed

lemma strtod_c_consumed:
  assumes "strtod_c s = (v, n)"
  shows "n \<le> length s \<and> list_all numeric_byte (take n s)"
proof (cases "n = 0")
  case True
  then show ?thesis by simp
next
  case False
  define r where "r = dropWhile isspace_c s"
  define sg :: nat where "sg = (if r \<noteq> [] \<and> (hd r = CHR ''-'' \<or> hd r = CHR ''+'') then 1 else 0)"
  obtain v' m where body: "strtod_body (drop sg r) = (v', m)"
    by (cases "strtod_body (drop sg r)") auto
  have n: "n = length (takeWhile isspace_c s) + sg + m"
    using assms False body
    by (auto simp: strtod_c_def Let_def r_def sg_def split: if_splits)
  have r: "r = drop (length (takeWhile isspace_c s)) s"
    unfolding r_def by (simp add: dropWhile_eq_drop)
  have a: "length (takeWhile isspace_c s) \<le> length s
      \<and> list_all numeric_byte (take (length (takeWhile isspace_c s)) s)"
    using list_all_takeWhile [of isspace_c s]
    by (auto simp: length_takeWhile_le take_takeWhile_length list_all_iff numeric_byte_def)
  have b: "sg \<le> length r \<and> list_all numeric_byte (take sg r)"
    by (cases r) (auto simp: sg_def numeric_byte_def)
  have ab: "length (takeWhile isspace_c s) + sg \<le> length s
      \<and> list_all numeric_byte (take (length (takeWhile isspace_c s) + sg) s)"
    using a b unfolding r by (rule numeric_prefix_add)
  have c: "m \<le> length (drop sg r) \<and> list_all numeric_byte (take m (drop sg r))"
    using strtod_body_consumed [OF body] .
  have c': "m \<le> length (drop (length (takeWhile isspace_c s) + sg) s)
      \<and> list_all numeric_byte (take m (drop (length (takeWhile isspace_c s) + sg) s))"
    using c unfolding r by (simp add: add.commute)
  show ?thesis
    unfolding n using ab c' by (rule numeric_prefix_add)
qed

lemma bracket_not_numeric: "\<not> numeric_byte CHR '']''"
  by (simp add: numeric_byte_def isspace_c_def isalnum_c_def isdigit_c_def tolower_c_def)

lemma strtod_c_stops_at_bracket:
  assumes "strtod_c (drop s t) = (v, e)" "s \<le> q" "q < length t" "t ! q = CHR '']''"
  shows "s + e \<le> q"
proof (rule ccontr)
  assume "\<not> s + e \<le> q"
  then have lt: "q - s < e" using assms(2) by simp
  from strtod_c_consumed [OF assms(1)]
  have all: "list_all numeric_byte (take e (drop s t))" by simp
  have "take e (drop s t) ! (q - s) = t ! q"
    using lt assms(2,3) by simp
  moreover have "q - s < length (take e (drop s t))"
    using lt assms(2,3) by simp
  ultimately have "numeric_byte (t ! q)"
    using all by (metis list_all_length)
  with assms(4) bracket_not_numeric show False by simp
qed

lemma tolower_digit: "isdigit_c c \<Longrightarrow> tolower_c c = c"
  by (auto simp: isdigit_c_def tolower_c_def)

lemma ci_prefix_Cons:
  "ci_prefix (x # w) (c # s) \<longleftrightarrow> tolower_c c = x \<and> ci_prefix w s"
  by (auto simp: ci_prefix_def)

lemma ci_prefix_Nil2: "ci_prefix (x # w) [] \<longleftrightarrow> False"
  by (simp add: ci_prefix_def)

lemma exp_part_none: "r = [] \<or> tolower_c (hd r) \<noteq> m \<Longrightarrow> exp_part m r = (0, 0)"
  by (cases r) (auto simp: exp_part_def Let_def)

lemma strtod_body_digits:
  assumes ds: "list_all isdigit_c ds" "ds \<noteq> []"
    and r: "r = [] \<or> hd r = CHR '','' \<or> hd r = CHR '']''"
  shows "strtod_body (ds @ r) = (Finite (of_nat (dec_val ds)), length ds)"
proof -
  obtain c cs where dsc: "ds = c # cs" using ds(2) by (cases ds) auto
  have c: "isdigit_c c" using ds(1) dsc by simp
  have lc: "tolower_c c = c" using c by (rule tolower_digit)
  have cne: "c \<noteq> CHR ''i''" "c \<noteq> CHR ''n''" using c by (auto simp: isdigit_c_def)
  have rnd: "r = [] \<or> \<not> isdigit_c (hd r)" using r by (auto simp: isdigit_c_def)
  have rx: "r = [] \<or> tolower_c (hd r) \<noteq> CHR ''x''"
    using r by (auto simp: tolower_c_def)
  have re: "r = [] \<or> tolower_c (hd r) \<noteq> CHR ''e''"
    using r by (auto simp: tolower_c_def)
  have no_inf: "\<not> ci_prefix ''infinity'' (ds @ r)" "\<not> ci_prefix ''inf'' (ds @ r)"
    "\<not> ci_prefix ''nan'' (ds @ r)"
    using cne by (simp_all add: dsc ci_prefix_Cons lc)
  have no_hex: "\<not> ci_prefix ''0x'' (ds @ r)"
  proof (cases cs)
    case Nil
    then show ?thesis using rx by (cases r) (auto simp: dsc ci_prefix_Cons ci_prefix_Nil2)
  next
    case (Cons d ds')
    then have "isdigit_c d" using ds(1) dsc by simp
    then have "tolower_c d \<noteq> CHR ''x''" by (auto simp: tolower_digit isdigit_c_def)
    then show ?thesis by (simp add: dsc Cons ci_prefix_Cons)
  qed
  have tw: "takeWhile isdigit_c (ds @ r) = ds" using ds(1) rnd by (rule takeWhile_digits_stop)
  have dw: "dropWhile isdigit_c (ds @ r) = r"
    using ds(1) rnd by (cases r) (auto simp: list_all_iff dropWhile_append2)
  have man: "mantissa isdigit_c (ds @ r) = (ds, [], length ds)"
    unfolding mantissa_def Let_def tw dw using r by (cases r) auto
  have ex: "exp_part CHR ''e'' r = (0, 0)"
    using re by (simp add: exp_part_none)
  show ?thesis
    using no_inf no_hex ds(2)
    by (simp add: strtod_body_def man ex Let_def pow_int_def split: prod.splits)
qed

lemma strtod_c_of_show_int:
  assumes "r = [] \<or> hd r = CHR '','' \<or> hd r = CHR '']''"
  shows "strtod_c (show_int n @ r) = (Finite (of_int n), length (show_int n))"
proof (cases "n < 0")
  case False
  obtain c cs where sn: "show_nat (nat n) = c # cs"
    using show_nat_nonempty [of "nat n"] by (cases "show_nat (nat n)") auto
  then have c: "isdigit_c c" using show_nat_digits [of "nat n"] by simp
  note sp = digit_not_special [OF c]
  have body: "strtod_body (show_nat (nat n) @ r)
      = (Finite (of_nat (dec_val (show_nat (nat n)))), length (show_nat (nat n)))"
    using show_nat_digits show_nat_nonempty assms by (rule strtod_body_digits)
  have "strtod_c (show_nat (nat n) @ r) = (Finite (of_nat (nat n)), length (show_nat (nat n)))"
    using sp body show_nat_nonempty [of "nat n"]
    by (simp add: strtod_c_def sn [symmetric] dec_val_show_nat Let_def) (simp add: sn)
  with False show ?thesis by (simp add: show_int_def)
next
  case True
  have body: "strtod_body (show_nat (nat (- n)) @ r)
      = (Finite (of_nat (dec_val (show_nat (nat (- n))))), length (show_nat (nat (- n))))"
    using show_nat_digits show_nat_nonempty assms by (rule strtod_body_digits)
  have m: "\<not> isspace_c CHR ''-''" by (simp add: isspace_c_def)
  have "strtod_c (CHR ''-'' # show_nat (nat (- n)) @ r)
      = (Finite (- of_nat (nat (- n))), Suc (length (show_nat (nat (- n)))))"
    using m body show_nat_nonempty [of "nat (- n)"]
    by (simp add: strtod_c_def dec_val_show_nat Let_def)
  with True show ?thesis by (simp add: show_int_def)
qed

lemma strtod_c_comma: "strtod_c (CHR '','' # r) = (Finite 0, 0)"
proof -
  have a: "\<not> isspace_c CHR '',''" by (simp add: isspace_c_def)
  have m: "mantissa isxdigit_c u = ([], [], 0) \<or> True" for u by simp
  have b: "strtod_body (CHR '','' # r) = (Finite 0, 0)"
    by (auto simp: strtod_body_def ci_prefix_Cons tolower_c_def mantissa_def isdigit_c_def
        Let_def split: prod.splits)
  show ?thesis using a b by (simp add: strtod_c_def)
qed

section \<open>Facts about vector decoding\<close>

lemma strchr_pos_None: "strchr_pos t c = None \<longleftrightarrow> c \<notin> set t"
  by (induction t) auto

lemma strchr_pos_Some:
  "strchr_pos t c = Some p \<Longrightarrow> p < length t \<and> t ! p = c \<and> (\<forall>i<p. t ! i \<noteq> c)"
proof (induction t arbitrary: p)
  case Nil
  then show ?case by simp
next
  case (Cons x t)
  show ?case
  proof (cases "x = c")
    case True
    with Cons.prems show ?thesis by simp
  next
    case False
    with Cons.prems obtain p' where p': "strchr_pos t c = Some p'" "p = Suc p'"
      by auto
    from Cons.IH [OF p'(1)] False p'(2) show ?thesis
      by (auto simp: nth_Cons split: nat.splits)
  qed
qed

lemma strrchr_pos_None: "strrchr_pos t c = None \<longleftrightarrow> c \<notin> set t"
  by (simp add: strrchr_pos_def strchr_pos_None)

lemma strrchr_pos_Some:
  assumes "strrchr_pos t c = Some q"
  shows "q < length t \<and> t ! q = c \<and> (\<forall>i. q < i \<and> i < length t \<longrightarrow> t ! i \<noteq> c)"
proof -
  from assms obtain j where j: "strchr_pos (rev t) c = Some j" and q: "q = length t - 1 - j"
    by (auto simp: strrchr_pos_def)
  from strchr_pos_Some [OF j] have jl: "j < length t" and jc: "rev t ! j = c"
    and jm: "\<forall>i<j. rev t ! i \<noteq> c" by simp_all
  have "q < length t" using jl q by simp
  moreover have "t ! q = c" using jc jl q by (simp add: rev_nth)
  moreover have "t ! i \<noteq> c" if "q < i" "i < length t" for i
  proof -
    have "length t - 1 - i < j" using that q jl by arith
    then have "rev t ! (length t - 1 - i) \<noteq> c" using jm by blast
    moreover have "rev t ! (length t - 1 - i) = t ! i"
      using that by (simp add: rev_nth)
    ultimately show ?thesis by simp
  qed
  ultimately show ?thesis by blast
qed

lemma scan_floats_stop:
  "\<not> (s < q \<and> int (length acc) < maxn) \<Longrightarrow> scan_floats t q maxn s acc = acc"
  by (subst scan_floats.simps) auto

lemma scan_floats_skip:
  "s < q \<Longrightarrow> int (length acc) < maxn \<Longrightarrow> snd (strtod_c (drop s t)) = 0 \<Longrightarrow>
     scan_floats t q maxn s acc = scan_floats t q maxn (s + 1) acc"
  by (subst scan_floats.simps) (auto split: prod.splits)

lemma scan_floats_take:
  "s < q \<Longrightarrow> int (length acc) < maxn \<Longrightarrow> strtod_c (drop s t) = (v, e) \<Longrightarrow> e \<noteq> 0 \<Longrightarrow>
     scan_floats t q maxn s acc = scan_floats t q maxn (s + e) (acc @ [v])"
  by (subst scan_floats.simps) (auto split: prod.splits)

lemma scan_floats_length:
  "length (scan_floats t q maxn s acc) \<le> max (length acc) (nat maxn)"
proof (induction t q maxn s acc rule: scan_floats.induct)
  case (1 t q maxn s acc)
  show ?case
  proof (cases "s < q \<and> int (length acc) < maxn")
    case False
    then show ?thesis by (simp add: scan_floats_stop)
  next
    case True
    obtain v e where ve: "strtod_c (drop s t) = (v, e)" by (cases "strtod_c (drop s t)")
    show ?thesis
    proof (cases "e = 0")
      case e0: True
      have "scan_floats t q maxn s acc = scan_floats t q maxn (s + 1) acc"
        using True ve e0 by (simp add: scan_floats_skip)
      with 1(1) [OF True ve [symmetric] refl e0] show ?thesis by simp
    next
      case e1: False
      have "scan_floats t q maxn s acc = scan_floats t q maxn (s + e) (acc @ [v])"
        using True ve e1 by (simp add: scan_floats_take)
      with 1(2) [OF True ve [symmetric] refl e1] True show ?thesis by simp linarith
    qed
  qed
qed

lemma scan_floats_member:
  "v \<in> set (scan_floats t q maxn s0 acc) \<Longrightarrow>
     v \<in> set acc \<or>
     (\<exists>s. s0 \<le> s \<and> s < q \<and> fst (strtod_c (drop s t)) = v \<and> snd (strtod_c (drop s t)) \<noteq> 0)"
proof (induction t q maxn s0 acc rule: scan_floats.induct)
  case (1 t q maxn s acc)
  show ?case
  proof (cases "s < q \<and> int (length acc) < maxn")
    case False
    with 1(3) show ?thesis by (simp add: scan_floats_stop)
  next
    case True
    obtain w e where ve: "strtod_c (drop s t) = (w, e)" by (cases "strtod_c (drop s t)")
    show ?thesis
    proof (cases "e = 0")
      case e0: True
      have "scan_floats t q maxn s acc = scan_floats t q maxn (s + 1) acc"
        using True ve e0 by (simp add: scan_floats_skip)
      with 1(3) have "v \<in> set (scan_floats t q maxn (s + 1) acc)" by simp
      from 1(1) [OF True ve [symmetric] refl e0 this] show ?thesis
      proof
        assume "v \<in> set acc"
        then show ?thesis ..
      next
        assume "\<exists>s'\<ge>s + 1. s' < q \<and> fst (strtod_c (drop s' t)) = v \<and> snd (strtod_c (drop s' t)) \<noteq> 0"
        then obtain s' where "s + 1 \<le> s'" "s' < q" "fst (strtod_c (drop s' t)) = v"
          "snd (strtod_c (drop s' t)) \<noteq> 0" by blast
        then have "s \<le> s' \<and> s' < q \<and> fst (strtod_c (drop s' t)) = v \<and> snd (strtod_c (drop s' t)) \<noteq> 0"
          by simp
        then show ?thesis by blast
      qed
    next
      case e1: False
      have "scan_floats t q maxn s acc = scan_floats t q maxn (s + e) (acc @ [w])"
        using True ve e1 by (simp add: scan_floats_take)
      with 1(3) have "v \<in> set (scan_floats t q maxn (s + e) (acc @ [w]))" by simp
      from 1(2) [OF True ve [symmetric] refl e1 this] show ?thesis
      proof
        assume "v \<in> set (acc @ [w])"
        then consider "v \<in> set acc" | "v = w" by auto
        then show ?thesis
        proof cases
          case 1
          then show ?thesis ..
        next
          case 2
          with True ve e1 have "s \<le> s \<and> s < q \<and> fst (strtod_c (drop s t)) = v \<and> snd (strtod_c (drop s t)) \<noteq> 0"
            by simp
          then show ?thesis by blast
        qed
      next
        assume "\<exists>s'\<ge>s + e. s' < q \<and> fst (strtod_c (drop s' t)) = v \<and> snd (strtod_c (drop s' t)) \<noteq> 0"
        then obtain s' where "s + e \<le> s'" "s' < q" "fst (strtod_c (drop s' t)) = v"
          "snd (strtod_c (drop s' t)) \<noteq> 0" by blast
        then have "s \<le> s' \<and> s' < q \<and> fst (strtod_c (drop s' t)) = v \<and> snd (strtod_c (drop s' t)) \<noteq> 0"
          by simp
        then show ?thesis by blast
      qed
    qed
  qed
qed

section \<open>Facts about the comparison\<close>

lemma diff_loop_stop: "\<not> i < n \<Longrightarrow> diff_loop a b n i mae mx = (mae, mx)"
  by (subst diff_loop.simps) simp

lemma diff_loop_step:
  "i < n \<Longrightarrow> diff_loop a b n i mae mx =
     diff_loop a b n (i + 1) (d_add mae (d_fabs (d_sub (a ! i) (b ! i))))
       (if d_gt (d_fabs (d_sub (a ! i) (b ! i))) mx then d_fabs (d_sub (a ! i) (b ! i)) else mx)"
  by (subst diff_loop.simps) (simp add: Let_def)

lemma diff_loop_take:
  "n \<le> k \<Longrightarrow> diff_loop (take k a) (take k b) n i mae mx = diff_loop a b n i mae mx"
proof (induction "n - i" arbitrary: i mae mx)
  case 0
  then show ?case by (simp add: diff_loop_stop)
next
  case (Suc m)
  then have "i < n" "m = n - (i + 1)" "i < k" by simp_all
  with Suc.hyps(1) [of "i + 1"] Suc.prems show ?case
    by (simp add: diff_loop_step)
qed

lemma diff_loop_finite:
  "n \<le> length xs \<Longrightarrow> n \<le> length ys \<Longrightarrow>
   diff_loop (map Finite xs) (map Finite ys) n i (Finite m) (Finite x) =
     (Finite (m + (\<Sum>k = i..<n. \<bar>xs ! k - ys ! k\<bar>)),
      Finite (Max (insert x ((\<lambda>k. \<bar>xs ! k - ys ! k\<bar>) ` {i..<n}))))"
proof (induction "n - i" arbitrary: i m x)
  case 0
  then show ?case by (simp add: diff_loop_stop)
next
  case (Suc j)
  then have i: "i < n" and j: "j = n - (i + 1)" by simp_all
  let ?d = "\<bar>xs ! i - ys ! i\<bar>"
  have d: "d_fabs (d_sub (map Finite xs ! i) (map Finite ys ! i)) = Finite ?d"
    using i Suc.prems by (simp add: d_sub_def)
  have set_eq: "{i..<n} = insert i {i + 1..<n}" using i by auto
  have max_eq: "Max (insert (if x < ?d then ?d else x) ((\<lambda>k. \<bar>xs ! k - ys ! k\<bar>) ` {i + 1..<n}))
       = Max (insert x ((\<lambda>k. \<bar>xs ! k - ys ! k\<bar>) ` {i..<n}))"
  proof -
    have fin: "finite ((\<lambda>k. \<bar>xs ! k - ys ! k\<bar>) ` {i + 1..<n})" by simp
    have "Max (insert x ((\<lambda>k. \<bar>xs ! k - ys ! k\<bar>) ` {i..<n}))
        = Max (insert x (insert ?d ((\<lambda>k. \<bar>xs ! k - ys ! k\<bar>) ` {i + 1..<n})))"
      by (subst set_eq) simp
    also have "\<dots> = Max (insert (max x ?d) ((\<lambda>k. \<bar>xs ! k - ys ! k\<bar>) ` {i + 1..<n}))"
    proof (cases "{i + 1..<n} = {}")
      case True
      then show ?thesis by (simp add: max.commute)
    next
      case False
      then have ne: "(\<lambda>k. \<bar>xs ! k - ys ! k\<bar>) ` {i + 1..<n} \<noteq> {}" by simp
      show ?thesis
        using fin ne by (simp add: max.assoc)
    qed
    also have "max x ?d = (if x < ?d then ?d else x)" by (simp add: max_def)
    finally show ?thesis by simp
  qed
  have sum_eq: "(\<Sum>k = i..<n. \<bar>xs ! k - ys ! k\<bar>) = ?d + (\<Sum>k = i + 1..<n. \<bar>xs ! k - ys ! k\<bar>)"
    using i by (simp add: sum.atLeast_Suc_lessThan)
  have step: "diff_loop (map Finite xs) (map Finite ys) n i (Finite m) (Finite x) =
      diff_loop (map Finite xs) (map Finite ys) n (i + 1) (Finite (m + ?d))
        (Finite (if x < ?d then ?d else x))"
    using i by (simp add: diff_loop_step d)
  show ?case
    unfolding step Suc.hyps(1) [OF j Suc.prems] max_eq sum_eq
    by (simp add: add.assoc)
qed

lemma compare_vectors_take:
  "compare_vectors a b =
     compare_vectors (take (min (length a) (length b)) a) (take (min (length a) (length b)) b)"
  by (cases "a = []"; cases "b = []")
    (auto simp: compare_vectors_def Let_def diff_loop_take diff_loop_stop min_def)

lemma compare_vectors_empty:
  "min (length a) (length b) = 0 \<Longrightarrow> compare_vectors a b = (Finite 0, Finite 0)"
  by (auto simp: compare_vectors_def Let_def diff_loop_stop min_def split: if_splits)

lemma compare_vectors_finite:
  assumes "n = min (length xs) (length ys)" "0 < n"
  shows "compare_vectors (map Finite xs) (map Finite ys) =
           (Finite ((\<Sum>k<n. \<bar>xs ! k - ys ! k\<bar>) / of_nat n),
            Finite (Max (insert 0 ((\<lambda>k. \<bar>xs ! k - ys ! k\<bar>) ` {..<n}))))"
proof -
  have n: "(if length xs < length ys then length xs else length ys) = n"
    using assms by (simp add: min_def)
  have le: "n \<le> length xs" "n \<le> length ys" using assms by simp_all
  show ?thesis
    using assms(2) diff_loop_finite [OF le, of 0 0 0]
    by (simp add: compare_vectors_def Let_def n lessThan_atLeast0)
qed

section \<open>Facts about the benchmark run\<close>

lemma call0_prefix: "paragon_call0 api h m w = (r, w') \<Longrightarrow> prefix (calls w) (calls w')"
  by (auto simp: paragon_call0_def invoke_Call_def split: prod.splits option.splits)

lemma try_gpu_enable_prefix: "prefix (calls w) (calls (try_gpu_enable api h w))"
  by (auto simp: try_gpu_enable_def paragon_call0_def invoke_Call_def
        split: prod.splits option.splits)

lemma call_ptr_prefix: "call_ptr api h m a w = Some (r, w') \<Longrightarrow> prefix (calls w) (calls w')"
  by (auto simp: call_ptr_def invoke_Call_def split: prod.splits option.splits)

lemma run_one_calls_prefix:
  assumes "run_one clock api ident dims ndims w = Some (res, w')"
  shows "prefix (calls (snd (paragon_new_net_any api (json_layers dims ndims) (json_activs ndims)
            (json_trainable ndims) False False w))) (calls w')"
proof (cases "paragon_parse_handle (fst (paragon_new_net_any api (json_layers dims ndims)
    (json_activs ndims) (json_trainable ndims) False False w)) \<le> 0")
  case True
  with assms show ?thesis
    by (auto simp: run_one_def Let_def split: prod.splits)
next
  case False
  obtain newr w1 where nn: "paragon_new_net_any api (json_layers dims ndims) (json_activs ndims)
      (json_trainable ndims) False False w = (newr, w1)"
    by (cases "paragon_new_net_any api (json_layers dims ndims) (json_activs ndims)
      (json_trainable ndims) False False w")
  obtain ts w2 where c1: "now_ms clock w1 = (ts, w2)" by (cases "now_ms clock w1")
  obtain ad w3 where c2: "paragon_call0 (Some api) (paragon_parse_handle newr)
      ''InitializeOptimizedGPU'' w2 = (ad, w3)"
    by (cases "paragon_call0 (Some api) (paragon_parse_handle newr) ''InitializeOptimizedGPU'' w2")
  obtain te w4 where c3: "now_ms clock w3 = (te, w4)" by (cases "now_ms clock w3")
  define w5 where "w5 = try_gpu_enable (Some api) (paragon_parse_handle newr) w4"
  obtain t0 w6 where c4: "now_ms clock w5 = (t0, w6)" by (cases "now_ms clock w5")
  have p6: "prefix (calls w1) (calls w6)"
    using now_ms_calls [OF c1] call0_prefix [OF c2] now_ms_calls [OF c3]
      try_gpu_enable_prefix [of w4 "Some api" "paragon_parse_handle newr"] now_ms_calls [OF c4]
    by (simp add: w5_def)
  from assms False nn c1 c2 c3 c4 obtain ra w7 where
    f1: "call_ptr api (paragon_parse_handle newr) ''Forward'' (forward_args json_fixed784) w6 = Some (ra, w7)"
    by (auto simp: run_one_def Let_def w5_def split: prod.splits option.splits)
  obtain oa w8 where c5: "paragon_call0 (Some api) (paragon_parse_handle newr) ''ExtractOutput'' w7 = (oa, w8)"
    by (cases "paragon_call0 (Some api) (paragon_parse_handle newr) ''ExtractOutput'' w7")
  obtain t1 w9 where c6: "now_ms clock w8 = (t1, w9)" by (cases "now_ms clock w8")
  obtain rt w10 where c7: "paragon_call0 (Some api) (paragon_parse_handle newr) ''ToggleGPU'' w9 = (rt, w10)"
    by (cases "paragon_call0 (Some api) (paragon_parse_handle newr) ''ToggleGPU'' w9")
  obtain tg0 w11 where c8: "now_ms clock w10 = (tg0, w11)" by (cases "now_ms clock w10")
  have p11: "prefix (calls w1) (calls w11)"
    using p6 call_ptr_prefix [OF f1] call0_prefix [OF c5] now_ms_calls [OF c6]
      call0_prefix [OF c7] now_ms_calls [OF c8]
    by (auto intro: prefix_order.trans)
  from assms False nn c1 c2 c3 c4 f1 c5 c6 c7 c8 obtain rb w12 where
    f2: "call_ptr api (paragon_parse_handle newr) ''Forward'' (forward_args json_fixed784) w11 = Some (rb, w12)"
    by (auto simp: run_one_def Let_def w5_def split: prod.splits option.splits)
  obtain ob w13 where c9: "paragon_call0 (Some api) (paragon_parse_handle newr) ''ExtractOutput'' w12 = (ob, w13)"
    by (cases "paragon_call0 (Some api) (paragon_parse_handle newr) ''ExtractOutput'' w12")
  obtain tg1 w14 where c10: "now_ms clock w13 = (tg1, w14)" by (cases "now_ms clock w13")
  have p14: "prefix (calls w1) (calls w14)"
    using p11 call_ptr_prefix [OF f2] call0_prefix [OF c9] now_ms_calls [OF c10]
    by (auto intro: prefix_order.trans)
  from assms False nn c1 c2 c3 c4 f1 c5 c6 c7 c8 f2 c9 c10 have "w' = w14"
    by (auto simp: run_one_def Let_def w5_def split: prod.splits option.splits)
  with p14 nn show ?thesis by simp
qed


lemma compare_outputs_None:
  "compare_outputs None b = compare_outputs (Some []) b"
  "compare_outputs a None = compare_outputs a (Some [])"
  by (simp_all add: compare_outputs_def parse_vector_tolerant_def)

lemma run_one_metrics:
  "run_one clock api ident dims ndims w = Some (Reported r, w') \<Longrightarrow>
     (r_mae r, r_mx r) = compare_outputs (Some (r_outA r)) (Some (r_outB r))"
  by (auto simp: run_one_def Let_def compare_outputs_None
      split: prod.splits if_splits option.splits)

section \<open>Facts about decoding and comparing the replies\<close>

lemma parse_vector_no_open:
  assumes "CHR ''['' \<notin> set t \<or> CHR '']'' \<notin> set t"
  shows "parse_vector_tolerant (Some t) maxn = []"
proof -
  from assms have "strchr_pos t CHR ''['' = None \<or> strrchr_pos t CHR '']'' = None"
    by (simp add: strchr_pos_None strrchr_pos_None)
  then show ?thesis
    by (auto simp: parse_vector_tolerant_def split: option.splits)
qed

lemma parse_vector_out_of_order:
  assumes "\<forall>i j. i < j \<and> j < length t \<and> t ! i = CHR ''['' \<longrightarrow> t ! j \<noteq> CHR '']''"
  shows "parse_vector_tolerant (Some t) maxn = []"
proof -
  have "q \<le> p" if p: "strchr_pos t CHR ''['' = Some p" and q: "strrchr_pos t CHR '']'' = Some q"
    for p q
  proof (rule ccontr)
    assume "\<not> q \<le> p"
    then have "p < q" by simp
    moreover have "q < length t" "t ! q = CHR '']''" using strrchr_pos_Some [OF q] by simp_all
    moreover have "t ! p = CHR ''[''" using strchr_pos_Some [OF p] by simp
    ultimately show False using assms by blast
  qed
  then show ?thesis
    by (auto simp: parse_vector_tolerant_def split: option.splits)
qed

lemma parse_vector_length: "length (parse_vector_tolerant r maxn) \<le> nat maxn"
  using scan_floats_length [of _ _ maxn _ "[]"]
  by (auto simp: parse_vector_tolerant_def split: option.splits)

lemma parse_vector_member:
  assumes "v \<in> set (parse_vector_tolerant (Some t) maxn)"
  shows "\<exists>p q s. strchr_pos t CHR ''['' = Some p \<and> strrchr_pos t CHR '']'' = Some q
           \<and> p < s \<and> s < q
           \<and> fst (strtod_c (drop s t)) = v \<and> snd (strtod_c (drop s t)) \<noteq> 0
           \<and> s + snd (strtod_c (drop s t)) \<le> q"
proof -
  obtain p where p: "strchr_pos t CHR ''['' = Some p"
    using assms by (cases "strchr_pos t CHR ''[''") (auto simp: parse_vector_tolerant_def)
  obtain q where q: "strrchr_pos t CHR '']'' = Some q"
    using assms p by (cases "strrchr_pos t CHR '']''") (auto simp: parse_vector_tolerant_def)
  have v: "v \<in> set (scan_floats t q maxn (p + 1) [])"
    using assms p q by (auto simp: parse_vector_tolerant_def split: if_splits)
  from scan_floats_member [OF v] obtain s where
    s: "p + 1 \<le> s" "s < q" "fst (strtod_c (drop s t)) = v" "snd (strtod_c (drop s t)) \<noteq> 0"
    by auto
  have "q < length t" "t ! q = CHR '']''" using strrchr_pos_Some [OF q] by simp_all
  then have "s + snd (strtod_c (drop s t)) \<le> q"
    using strtod_c_stops_at_bracket [of s t "fst (strtod_c (drop s t))"
        "snd (strtod_c (drop s t))" q] s(2)
    by simp
  with p q s show ?thesis by (intro exI [of _ p] exI [of _ q] exI [of _ s]) simp
qed

lemma parse_vector_scan:
  "strchr_pos t CHR ''['' = Some p \<Longrightarrow> strrchr_pos t CHR '']'' = Some q \<Longrightarrow> p < q \<Longrightarrow>
     parse_vector_tolerant (Some t) maxn = scan_floats t q maxn (p + 1) []"
  by (simp add: parse_vector_tolerant_def)

lemma scan_floats_int_list:
  assumes "drop s t = join_comma (map show_int ns) @ '']''"
    and "q = s + length (join_comma (map show_int ns))"
    and "int (length acc + length ns) \<le> maxn"
  shows "scan_floats t q maxn s acc = acc @ map (\<lambda>n. Finite (of_int n)) ns"
  using assms
proof (induction ns arbitrary: s acc rule: induct_list012)
  case 1
  then show ?case by (simp add: scan_floats_stop)
next
  case (2 n)
  have pos: "0 < length (show_int n)" using show_int_nonempty [of n] by simp
  have rd: "strtod_c (drop s t) = (Finite (of_int n), length (show_int n))"
    using 2(1) strtod_c_of_show_int [of "'']''" n] by simp
  have "scan_floats t q maxn s acc
      = scan_floats t q maxn (s + length (show_int n)) (acc @ [Finite (of_int n)])"
    using 2 pos rd by (intro scan_floats_take) simp_all
  also have "\<dots> = acc @ [Finite (of_int n)]"
    using 2(2) by (simp add: scan_floats_stop)
  finally show ?case by simp
next
  case (3 n m ns)
  let ?rest = "join_comma (map show_int (m # ns))"
  have pos: "0 < length (show_int n)" using show_int_nonempty [of n] by simp
  have d: "drop s t = show_int n @ CHR '','' # ?rest @ '']''"
    using 3(3) by simp
  have rd: "strtod_c (drop s t) = (Finite (of_int n), length (show_int n))"
    unfolding d using strtod_c_of_show_int [of "CHR '','' # ?rest @ '']''" n] by simp
  have q: "q = s + length (show_int n) + 1 + length ?rest"
    using 3(4) by simp
  have d1: "drop (s + length (show_int n)) t = CHR '','' # ?rest @ '']''"
    using d by (metis add.commute append_eq_conv_conj drop_drop)
  have d2: "drop (s + length (show_int n) + 1) t = ?rest @ '']''"
    using d1 by (metis add.commute drop_drop drop_Suc_Cons drop0 One_nat_def plus_1_eq_Suc)
  have step1: "scan_floats t q maxn s acc
      = scan_floats t q maxn (s + length (show_int n)) (acc @ [Finite (of_int n)])"
    using 3(5) pos rd q by (intro scan_floats_take) simp_all
  have step2: "scan_floats t q maxn (s + length (show_int n)) (acc @ [Finite (of_int n)])
      = scan_floats t q maxn (s + length (show_int n) + 1) (acc @ [Finite (of_int n)])"
    using 3(5) q by (intro scan_floats_skip) (simp_all add: d1 strtod_c_comma)
  have step3: "scan_floats t q maxn (s + length (show_int n) + 1) (acc @ [Finite (of_int n)])
      = (acc @ [Finite (of_int n)]) @ map (\<lambda>n. Finite (of_int n)) (m # ns)"
    using 3(5) q by (intro 3(2) d2) simp_all
  show ?case unfolding step1 step2 step3 by simp
qed

lemma parse_vector_int_list:
  assumes "int (length ns) \<le> maxn"
  shows "parse_vector_tolerant (Some (''['' @ join_comma (map show_int ns) @ '']'')) maxn
           = map (\<lambda>n. Finite (of_int n)) ns"
proof -
  let ?body = "join_comma (map show_int ns)"
  let ?t = "''['' @ ?body @ '']''"
  have p: "strchr_pos ?t CHR ''['' = Some 0" by simp
  have q: "strrchr_pos ?t CHR '']'' = Some (length ?body + 1)"
    by (simp add: strrchr_pos_def)
  have "parse_vector_tolerant (Some ?t) maxn = scan_floats ?t (length ?body + 1) maxn 1 []"
    using p q by (simp add: parse_vector_tolerant_def)
  also have "\<dots> = [] @ map (\<lambda>n. Finite (of_int n)) ns"
    using assms by (intro scan_floats_int_list) simp_all
  finally show ?thesis by simp
qed

lemma parse_vector_example:
  "parse_vector_tolerant (Some ''[1.0,2.5,bad,3]'') 10 = [Finite 1, Finite (5 / 2), Finite 3]"
  by code_simp

lemma compare_example:
  "compare_vectors [Finite 1, Finite 2, Finite 3] [Finite 1, Finite 2, Finite 5]
     = (Finite ((0 + 0 + 2) / 3), Finite 2)"
  by code_simp

section \<open>Facts about the example library\<close>

lemma example_load: "paragon_load example_dlopen p = (1, example_api)"
  by (simp add: paragon_load_def example_dlopen_def example_api_def example_so_def
      NEW5_def NEW3_def CALLN_def must_dlsym_try_def Let_def)

lemma example_run_one:
  "\<exists>r w'. run_one example_clock example_api ident dims ndims w = Some (Reported r, w')"
  by (simp add: run_one_def example_api_def example_clock_def
      paragon_new_net_any_def invoke_Call_def example_Call_def parse_handle_ex_three Let_def
      now_ms_def paragon_call0_def try_gpu_enable_def call_ptr_def split: prod.splits)

lemma example_run_all: "\<exists>rs w'. run_all example_clock example_api cs w = Some (rs, w')"
proof (induction cs arbitrary: w)
  case Nil
  then show ?case by simp
next
  case (Cons c cs)
  obtain r w1 where "run_one example_clock example_api (fst c) (snd c) (int (length (snd c))) w
      = Some (Reported r, w1)"
    using example_run_one by blast
  moreover obtain rs w2 where "run_all example_clock example_api cs w1 = Some (rs, w2)"
    using Cons.IH by blast
  ultimately show ?case by simp
qed

lemma example_main:
  "\<exists>rs w'. main example_dlopen example_clock argv w = Some (0, rs, w')"
  using example_run_all [of suite w] by (auto simp: main_def example_load)

lemma example_run_outputs:
  "\<exists>r w'. run_one example_clock example_api ''S1'' [784, 64, 10] 3 example_world
             = Some (Reported r, w')
         \<and> r_outA r = ''[[1,2,3]]'' \<and> r_outB r = ''[[1,2,5,7]]''"
  by (simp add: run_one_def example_api_def example_clock_def example_world_def
      paragon_new_net_any_def invoke_Call_def example_Call_def parse_handle_ex_three Let_def
      now_ms_def paragon_call0_def try_gpu_enable_def call_ptr_def split: prod.splits)

lemma example_compare:
  "compare_outputs (Some ''[[1,2,3]]'') (Some ''[[1,2,5,7]]'') = (Finite (2 / 3), Finite 2)"
  by code_simp

lemma silent_new_net:
  "paragon_new_net_any silent_api l a t g x w
     = (Some [], \<lparr>env = Suc (env w),
                  calls = calls w @ [CallCall 0 ''NewNetworkFloat32''
                    (''['' @ l @ '','' @ a @ '','' @ t @ '','' @ bool_json g @ '',''
                       @ bool_json x @ '']'')]\<rparr>)"
  by (simp add: paragon_new_net_any_def silent_api_def silent_Call_def invoke_Call_def
      new_net_args_fit [simplified] Let_def)

section \<open>The deterministic input vector\<close>

text \<open>
  C1. For the seed 123 the input vector has 784 elements, and element \<open>i\<close> is the state of
  the recurrence \<open>s' = (s * 1664525 + 1013904223) mod 2^32\<close> after \<open>i + 1\<close> steps, divided
  by 4294967295; element 0 is \<open>((123 * 1664525 + 1013904223) mod 2^32) / 4294967295\<close>. The
  32-bit arithmetic of the program is the recurrence modulo \<open>2^32\<close>. The vector is a
  constant: nothing but the seed and the recurrence enters it. The text handed to the
  library prints each element with six decimals.
\<close>

theorem input_vector_is_lcg_sequence:
  "length fixed784_vector = 784
   \<and> (\<forall>i<784. fixed784_vector ! i = of_nat ((lcg_next ^^ Suc i) 123) / 4294967295)
   \<and> fixed784_vector ! 0 = of_nat ((123 * 1664525 + 1013904223) mod 2 ^ 32) / 4294967295
   \<and> json_fixed784 = ''[['' @ join_comma (map fmt_6f fixed784_vector) @ '']]''"
  using json_fixed784_eq lcg_element_0
  by (simp add: fixed784_vector_eq lcg_element_def del: funpow.simps)

theorem input_vector_witness:
  "Suc 0 < 784 \<and> fixed784_vector ! Suc 0 = 1868869221 / 4294967295"
proof -
  have "Suc 0 < 784" by simp
  with input_vector_is_lcg_sequence
  have "fixed784_vector ! Suc 0 = of_nat ((lcg_next ^^ Suc (Suc 0)) 123) / 4294967295"
    by blast
  then show ?thesis by (simp add: lcg_next_def)
qed

section \<open>The argument of the forward pass\<close>

text \<open>
  C2. The arguments text of every call of \<open>Forward\<close> is the one-element argument list
  \<open>[X]\<close> whose element \<open>X\<close> is the single-sample batch \<open>[[v0,...,v783]]\<close>: two opening
  brackets, the 784 elements of the input vector printed with six decimals and separated
  by commas, two closing brackets. A case that is reported makes exactly two such calls,
  a case whose construction failed makes none, and a whole run of \<open>main\<close> passes no other
  arguments text to \<open>Forward\<close>.
\<close>

theorem forward_argument_is_single_sample_batch:
  "forward_args json_fixed784
     = ''['' @ (''[['' @ join_comma (map fmt_6f fixed784_vector) @ '']]'') @ '']''
   \<and> length (map fmt_6f fixed784_vector) = 784
   \<and> (\<forall>v\<in>set fixed784_vector. fixed6_literal (fmt_6f v))
   \<and> (run_one clock api ident dims ndims w = Some (res, w') \<longrightarrow>
        forward_args_in (calls w') =
          forward_args_in (calls w) @
            (case res of
               ConstructionFailed r \<Rightarrow> []
             | Reported r \<Rightarrow> [forward_args json_fixed784, forward_args json_fixed784]))
   \<and> (main dlopen mclock argv mw = Some (rc, rs, mw') \<longrightarrow>
        set (forward_args_in (calls mw')) \<subseteq>
          set (forward_args_in (calls mw)) \<union> {forward_args json_fixed784})"
proof -
  have lit: "\<forall>v\<in>set fixed784_vector. fixed6_literal (fmt_6f v)"
    by (auto simp: fixed784_vector_eq intro!: fmt_6f_literal lcg_element_nonneg)
  have len: "length (map fmt_6f fixed784_vector) = 784"
    by (simp add: fixed784_vector_eq)
  have arg: "forward_args json_fixed784
     = ''['' @ (''[['' @ join_comma (map fmt_6f fixed784_vector) @ '']]'') @ '']''"
    by (simp only: forward_args_fit json_fixed784_eq [symmetric])
  show ?thesis
    using lit len arg run_one_forward [of clock api ident dims ndims w res w']
      main_forward [of dlopen mclock argv mw rc rs mw']
    by blast
qed

theorem forward_argument_witness:
  "fixed6_literal (fmt_6f (fixed784_vector ! 0))
   \<and> (\<exists>r w'. run_one example_clock example_api ''S1'' [784, 64, 10] 3 example_world
                = Some (Reported r, w')
          \<and> forward_args_in (calls w') = [forward_args json_fixed784, forward_args json_fixed784])
   \<and> (\<exists>rs w'. main example_dlopen example_clock [''bench''] example_world = Some (0, rs, w')
          \<and> set (forward_args_in (calls w')) \<subseteq> {forward_args json_fixed784})"
proof -
  have in0: "fixed784_vector ! 0 \<in> set fixed784_vector"
    by (rule nth_mem) (simp add: fixed784_vector_eq)
  obtain r w' where run: "run_one example_clock example_api ''S1'' [784, 64, 10] 3 example_world
      = Some (Reported r, w')"
    using example_run_one by blast
  obtain rs mw' where mn: "main example_dlopen example_clock [''bench''] example_world
      = Some (0, rs, mw')"
    using example_main by blast
  note inst = forward_argument_is_single_sample_batch
    [where clock = example_clock and api = example_api and ident = "''S1''"
       and dims = "[784, 64, 10]" and ndims = 3 and w = example_world and res = "Reported r"
       and w' = w' and dlopen = example_dlopen and mclock = example_clock
       and argv = "[''bench'']" and mw = example_world and rc = 0 and rs = rs and mw' = mw']
  have cw: "forward_args_in (calls example_world) = []" by (simp add: example_world_def)
  from inst in0 have "fixed6_literal (fmt_6f (fixed784_vector ! 0))" by blast
  moreover have
    "forward_args_in (calls w') = [forward_args json_fixed784, forward_args json_fixed784]"
    using inst [THEN conjunct2, THEN conjunct2, THEN conjunct2, THEN conjunct1, rule_format, OF run]
    by (simp only: cw append_Nil outcome.case)
  moreover have "set (forward_args_in (calls mw')) \<subseteq> {forward_args json_fixed784}"
    using inst [THEN conjunct2, THEN conjunct2, THEN conjunct2, THEN conjunct2, rule_format, OF mn]
    by (simp only: cw list.set Un_empty_left)
  ultimately show ?thesis using run mn by blast
qed

section \<open>Load failure\<close>

text \<open>
  C3. When \<open>dlopen\<close> fails, \<open>paragon_load\<close> still returns 1 and leaves the table with
  all three function references absent; on that table \<open>paragon_call0\<close> and
  \<open>paragon_new_net_any\<close> return an absent reply and \<open>try_gpu_enable\<close> does nothing; and
  \<open>main\<close> runs all ten cases, each given up after the construction with no call made,
  and returns the exit status 0.
\<close>

theorem load_failure_degrades_gracefully:
  "(so (snd (paragon_load dlopen so_path)) = None \<longrightarrow>
      paragon_load dlopen so_path = (1, unbound_api))
   \<and> New5 (unbound_api :: 'l ParagonAPI) = None
   \<and> New3 (unbound_api :: 'l ParagonAPI) = None
   \<and> Call (unbound_api :: 'l ParagonAPI) = None
   \<and> paragon_call0 (Some unbound_api) h m (w :: 'l world) = (None, w)
   \<and> paragon_new_net_any unbound_api l a t g x w = (None, w)
   \<and> try_gpu_enable (Some unbound_api) h w = w
   \<and> run_one clock unbound_api ident dims ndims w = Some (ConstructionFailed None, w)
   \<and> (so (snd (paragon_load dlopen (library_arg argv))) = None \<longrightarrow>
        main dlopen clock argv w = Some (0, replicate 10 (ConstructionFailed None), w))"
  using load_failed [of dlopen so_path] main_load_failed [of dlopen argv clock w]
  by (simp add: call0_unbound new_net_unbound try_gpu_enable_unbound run_one_unbound)
    (simp add: unbound_api_def)

theorem load_failure_witness:
  "so (snd (paragon_load (\<lambda>p. None :: nat shared_object option) (Some ''./missing.so''))) = None
   \<and> paragon_load (\<lambda>p. None :: nat shared_object option) (Some ''./missing.so'')
       = (1, unbound_api)
   \<and> so (snd (paragon_load (\<lambda>p. None :: nat shared_object option)
         (library_arg [''bench'', ''./missing.so'']))) = None
   \<and> main (\<lambda>p. None) example_clock [''bench'', ''./missing.so''] example_world
       = Some (0, replicate 10 (ConstructionFailed None), example_world)"
proof -
  have f1: "so (snd (paragon_load (\<lambda>p. None :: nat shared_object option) q)) = None" for q
    by (simp add: paragon_load_def Let_def)
  have a: "paragon_load (\<lambda>p. None :: nat shared_object option) (Some ''./missing.so'')
      = (1, unbound_api)"
    using load_failure_degrades_gracefully
      [where dlopen = "\<lambda>p. None :: nat shared_object option"
         and so_path = "Some ''./missing.so''", THEN conjunct1] f1
    by simp
  have b: "main (\<lambda>p. None) example_clock [''bench'', ''./missing.so''] example_world
      = Some (0, replicate 10 (ConstructionFailed None), example_world)"
    using load_failure_degrades_gracefully
      [where dlopen = "\<lambda>p. None :: nat shared_object option"
         and argv = "[''bench'', ''./missing.so'']" and clock = example_clock
         and w = example_world,
       THEN conjunct2, THEN conjunct2, THEN conjunct2, THEN conjunct2, THEN conjunct2,
       THEN conjunct2, THEN conjunct2, THEN conjunct2] f1
    by simp
  show ?thesis by (intro conjI f1 a b)
qed

section \<open>Handle decoding\<close>



section \<open>Numeric-vector decoding\<close>

text \<open>
  C5. Vector decoding. The result is empty for an absent text, for a text without an opening
  or without a closing bracket, and for a text in which no closing bracket comes after an
  opening one. Otherwise the scan runs from the byte after the first opening bracket up to
  the last closing bracket. It never returns more values than the maximum; every value it
  returns is a literal that \<open>strtod\<close> reads at a position after the first opening bracket
  and that ends at or before the last closing bracket; a bracketed, comma-separated list of
  decimal integers no longer than the maximum gives exactly those integers; where
  \<open>strtod\<close> reads nothing the scan advances by one byte, and where it reads a literal the
  value is stored and the scan goes on after the literal. The text \<open>[1.0,2.5,bad,3]\<close>
  with the maximum 10 gives 1, 2.5 and 3.
\<close>

theorem vector_decoding_tolerant:
  "parse_vector_tolerant None maxn = []
   \<and> (CHR ''['' \<notin> set t \<or> CHR '']'' \<notin> set t \<longrightarrow> parse_vector_tolerant (Some t) maxn = [])
   \<and> ((\<forall>i j. i < j \<and> j < length t \<and> t ! i = CHR ''['' \<longrightarrow> t ! j \<noteq> CHR '']'') \<longrightarrow>
        parse_vector_tolerant (Some t) maxn = [])
   \<and> (strchr_pos t CHR ''['' = Some p \<and> strrchr_pos t CHR '']'' = Some q \<and> p < q \<longrightarrow>
        parse_vector_tolerant (Some t) maxn = scan_floats t q maxn (p + 1) [])
   \<and> length (parse_vector_tolerant r maxn) \<le> nat maxn
   \<and> (\<forall>v\<in>set (parse_vector_tolerant (Some t) maxn).
         \<exists>p q s. strchr_pos t CHR ''['' = Some p \<and> strrchr_pos t CHR '']'' = Some q
           \<and> p < s \<and> s < q
           \<and> fst (strtod_c (drop s t)) = v \<and> snd (strtod_c (drop s t)) \<noteq> 0
           \<and> s + snd (strtod_c (drop s t)) \<le> q)
   \<and> (int (length ns) \<le> maxn \<longrightarrow>
        parse_vector_tolerant (Some (''['' @ join_comma (map show_int ns) @ '']'')) maxn
          = map (\<lambda>n. Finite (of_int n)) ns)
   \<and> (s < q \<and> int (length acc) < maxn \<and> snd (strtod_c (drop s t)) = 0 \<longrightarrow>
        scan_floats t q maxn s acc = scan_floats t q maxn (s + 1) acc)
   \<and> (s < q \<and> int (length acc) < maxn \<and> snd (strtod_c (drop s t)) \<noteq> 0 \<longrightarrow>
        scan_floats t q maxn s acc =
          scan_floats t q maxn (s + snd (strtod_c (drop s t)))
            (acc @ [fst (strtod_c (drop s t))]))
   \<and> (\<not> (s < q \<and> int (length acc) < maxn) \<longrightarrow> scan_floats t q maxn s acc = acc)
   \<and> parse_vector_tolerant (Some ''[1.0,2.5,bad,3]'') 10 = [Finite 1, Finite (5 / 2), Finite 3]"
proof -
  have f1: "parse_vector_tolerant None maxn = []"
    by (simp add: parse_vector_tolerant_def)
  have f2: "CHR ''['' \<notin> set t \<or> CHR '']'' \<notin> set t \<longrightarrow> parse_vector_tolerant (Some t) maxn = []"
    using parse_vector_no_open [of t maxn] by blast
  have f3: "(\<forall>i j. i < j \<and> j < length t \<and> t ! i = CHR ''['' \<longrightarrow> t ! j \<noteq> CHR '']'') \<longrightarrow>
        parse_vector_tolerant (Some t) maxn = []"
    using parse_vector_out_of_order [of t maxn] by blast
  have f4: "strchr_pos t CHR ''['' = Some p \<and> strrchr_pos t CHR '']'' = Some q \<and> p < q \<longrightarrow>
        parse_vector_tolerant (Some t) maxn = scan_floats t q maxn (p + 1) []"
    using parse_vector_scan [of t p q maxn] by blast
  have f5: "length (parse_vector_tolerant r maxn) \<le> nat maxn"
    by (rule parse_vector_length)
  have f6: "\<forall>v\<in>set (parse_vector_tolerant (Some t) maxn).
         \<exists>p q s. strchr_pos t CHR ''['' = Some p \<and> strrchr_pos t CHR '']'' = Some q
           \<and> p < s \<and> s < q
           \<and> fst (strtod_c (drop s t)) = v \<and> snd (strtod_c (drop s t)) \<noteq> 0
           \<and> s + snd (strtod_c (drop s t)) \<le> q"
    using parse_vector_member [of _ t maxn] by blast
  have f6': "int (length ns) \<le> maxn \<longrightarrow>
        parse_vector_tolerant (Some (''['' @ join_comma (map show_int ns) @ '']'')) maxn
          = map (\<lambda>n. Finite (of_int n)) ns"
    using parse_vector_int_list [of ns maxn] by blast
  have f7: "s < q \<and> int (length acc) < maxn \<and> snd (strtod_c (drop s t)) = 0 \<longrightarrow>
        scan_floats t q maxn s acc = scan_floats t q maxn (s + 1) acc"
    using scan_floats_skip [of s q acc maxn t] by blast
  have f8: "s < q \<and> int (length acc) < maxn \<and> snd (strtod_c (drop s t)) \<noteq> 0 \<longrightarrow>
        scan_floats t q maxn s acc =
          scan_floats t q maxn (s + snd (strtod_c (drop s t)))
            (acc @ [fst (strtod_c (drop s t))])"
    using scan_floats_take [of s q acc maxn t "fst (strtod_c (drop s t))"
        "snd (strtod_c (drop s t))"]
    by simp
  have f9: "\<not> (s < q \<and> int (length acc) < maxn) \<longrightarrow> scan_floats t q maxn s acc = acc"
    using scan_floats_stop [of s q acc maxn t] by blast
  show ?thesis
    by (intro conjI f1 f2 f3 f4 f5 f6 f6' f7 f8 f9 parse_vector_example)
qed

theorem vector_decoding_witness:
  "CHR ''['' \<notin> set ''1,2]''
   \<and> parse_vector_tolerant (Some ''1,2]'') 10 = []
   \<and> \<not> (\<exists>i j. i < j \<and> j < length '']1['' \<and> '']1['' ! i = CHR ''['' \<and> '']1['' ! j = CHR '']'')
   \<and> parse_vector_tolerant (Some '']1['') 10 = []
   \<and> strchr_pos ''[x1]'' CHR ''['' = Some 0 \<and> strrchr_pos ''[x1]'' CHR '']'' = Some 3
   \<and> parse_vector_tolerant (Some ''[x1]'') 10 = scan_floats ''[x1]'' 3 10 1 []
   \<and> snd (strtod_c (drop 1 ''[x1]'')) = 0
   \<and> scan_floats ''[x1]'' 3 10 1 [] = scan_floats ''[x1]'' 3 10 2 []
   \<and> snd (strtod_c (drop 2 ''[x1]'')) \<noteq> 0
   \<and> scan_floats ''[x1]'' 3 10 2 [] = scan_floats ''[x1]'' 3 10 3 [Finite 1]
   \<and> scan_floats ''[x1]'' 3 10 3 [Finite 1] = [Finite 1]
   \<and> Finite 1 \<in> set (parse_vector_tolerant (Some ''[x1]'') 10)
   \<and> (\<exists>p q s. strchr_pos ''[x1]'' CHR ''['' = Some p \<and> strrchr_pos ''[x1]'' CHR '']'' = Some q
           \<and> p < s \<and> s < q
           \<and> fst (strtod_c (drop s ''[x1]'')) = Finite 1 \<and> snd (strtod_c (drop s ''[x1]'')) \<noteq> 0
           \<and> s + snd (strtod_c (drop s ''[x1]'')) \<le> q)
   \<and> int (length [3, - 4 :: int]) \<le> 10
   \<and> parse_vector_tolerant (Some ''[3,-4]'') 10 = [Finite 3, Finite (- 4)]"
proof -
  have h1: "CHR ''['' \<notin> set ''1,2]''" by simp
  have h2: "\<forall>i j. i < j \<and> j < length '']1['' \<and> '']1['' ! i = CHR ''['' \<longrightarrow> '']1['' ! j \<noteq> CHR '']''"
  proof (intro allI impI)
    fix i j :: nat
    assume a: "i < j \<and> j < length '']1['' \<and> '']1['' ! i = CHR ''[''"
    then have "j = 1 \<or> j = 2" by auto
    then show "'']1['' ! j \<noteq> CHR '']''" by auto
  qed
  have h3: "strchr_pos ''[x1]'' CHR ''['' = Some 0" "strrchr_pos ''[x1]'' CHR '']'' = Some 3"
    by (simp_all add: strrchr_pos_def)
  have h4: "strtod_c (drop 1 ''[x1]'') = (Finite 0, 0)" by code_simp
  have h5: "strtod_c (drop 2 ''[x1]'') = (Finite 1, 1)" by code_simp
  note c1 = vector_decoding_tolerant [where t = "''1,2]''" and maxn = 10,
      THEN conjunct2, THEN conjunct1, rule_format, OF disjI1, OF h1]
  note c2 = vector_decoding_tolerant [where t = "'']1[''" and maxn = 10,
      THEN conjunct2, THEN conjunct2, THEN conjunct1, THEN mp, OF h2]
  note c3 = vector_decoding_tolerant [where t = "''[x1]''" and maxn = 10 and p = 0 and q = 3,
      THEN conjunct2, THEN conjunct2, THEN conjunct2, THEN conjunct1, rule_format,
      OF conjI [OF h3(1) conjI [OF h3(2)]]]
  have c3': "parse_vector_tolerant (Some ''[x1]'') 10 = scan_floats ''[x1]'' 3 10 1 []"
    using c3 by simp
  have c4: "scan_floats ''[x1]'' 3 10 1 [] = scan_floats ''[x1]'' 3 10 2 []"
    using vector_decoding_tolerant [where t = "''[x1]''" and maxn = 10 and q = 3 and s = 1
        and acc = "[]",
      THEN conjunct2, THEN conjunct2, THEN conjunct2, THEN conjunct2, THEN conjunct2,
      THEN conjunct2, THEN conjunct2, THEN conjunct1] h4
    by (simp add: eval_nat_numeral)
  have c5: "scan_floats ''[x1]'' 3 10 2 [] = scan_floats ''[x1]'' 3 10 3 [Finite 1]"
    using vector_decoding_tolerant [where t = "''[x1]''" and maxn = 10 and q = 3 and s = 2
        and acc = "[]",
      THEN conjunct2, THEN conjunct2, THEN conjunct2, THEN conjunct2, THEN conjunct2,
      THEN conjunct2, THEN conjunct2, THEN conjunct2, THEN conjunct1] h5
    by (simp add: eval_nat_numeral)
  have c6: "scan_floats ''[x1]'' 3 10 3 [Finite 1] = [Finite 1]"
    using vector_decoding_tolerant [where t = "''[x1]''" and maxn = 10 and q = 3 and s = 3
        and acc = "[Finite 1]",
      THEN conjunct2, THEN conjunct2, THEN conjunct2, THEN conjunct2, THEN conjunct2,
      THEN conjunct2, THEN conjunct2, THEN conjunct2, THEN conjunct2, THEN conjunct1]
    by (simp add: eval_nat_numeral)
  have c7: "Finite 1 \<in> set (parse_vector_tolerant (Some ''[x1]'') 10)"
    by (simp only: c3' c4 c5 c6) simp
  note c8 = vector_decoding_tolerant [where t = "''[x1]''" and maxn = 10,
      THEN conjunct2, THEN conjunct2, THEN conjunct2, THEN conjunct2, THEN conjunct2,
      THEN conjunct1, rule_format, OF c7]
  have h2': "\<not> (\<exists>i j. i < j \<and> j < length '']1['' \<and> '']1['' ! i = CHR ''['' \<and> '']1['' ! j = CHR '']'')"
    using h2 by blast
  have h4': "snd (strtod_c (drop 1 ''[x1]'')) = 0" and h5': "snd (strtod_c (drop 2 ''[x1]'')) \<noteq> 0"
    by (simp_all only: h4 h5) simp_all
  have h9: "int (length [3, - 4 :: int]) \<le> 10" by simp
  have sh: "show_int 3 = ''3''" "show_int (- 4) = ''-4''" by code_simp+
  have c9: "parse_vector_tolerant (Some ''[3,-4]'') 10 = [Finite 3, Finite (- 4)]"
    using vector_decoding_tolerant [where ns = "[3, - 4]" and maxn = 10,
      THEN conjunct2, THEN conjunct2, THEN conjunct2, THEN conjunct2, THEN conjunct2,
      THEN conjunct2, THEN conjunct1] h9
    by (simp add: sh)
  show ?thesis
    by (intro conjI h1 c1 h2' c2 h3 c3' h4' c4 h5' c5 c6 c7 c8 h9 c9)
qed

section \<open>Construction strategies\<close>

text \<open>
  C6. The construction chooses in a fixed order. With the 5-argument capability bound it
  makes one call of it with the five arguments; otherwise, with the 3-argument capability
  bound, one call of it with the three structural arguments; otherwise, with the generic
  dispatch bound, one call with the handle 0, the method \<open>NewNetworkFloat32\<close> and the five
  values as one bracketed, comma-separated list; otherwise it makes no call and the reply
  is absent. The calls recorded in a benchmark case begin with this construction, made
  with both flags false.
\<close>

theorem construction_strategy_priority:
  "(New5 api = Some f5 \<longrightarrow>
      paragon_new_net_any api l a t g x w =
        (fst (f5 l a t g x (env w)),
         \<lparr>env = snd (f5 l a t g x (env w)), calls = calls w @ [CallNew5 l a t g x]\<rparr>))
   \<and> (New5 api = None \<and> New3 api = Some f3 \<longrightarrow>
      paragon_new_net_any api l a t g x w =
        (fst (f3 l a t (env w)),
         \<lparr>env = snd (f3 l a t (env w)), calls = calls w @ [CallNew3 l a t]\<rparr>))
   \<and> (New5 api = None \<and> New3 api = None \<and> Call api = Some f \<longrightarrow>
      (let args = ''['' @ l @ '','' @ a @ '','' @ t @ '','' @ bool_json g @ '','' @ bool_json x @ '']''
       in paragon_new_net_any api l a t g x w =
            (fst (f 0 ''NewNetworkFloat32'' args (env w)),
             \<lparr>env = snd (f 0 ''NewNetworkFloat32'' args (env w)),
              calls = calls w @ [CallCall 0 ''NewNetworkFloat32'' args]\<rparr>)))
   \<and> (New5 api = None \<and> New3 api = None \<and> Call api = None \<longrightarrow>
      paragon_new_net_any api l a t g x w = (None, w))
   \<and> (run_one clock api ident dims ndims w = Some (res, w') \<longrightarrow>
        prefix (calls (snd (paragon_new_net_any api (json_layers dims ndims) (json_activs ndims)
                  (json_trainable ndims) False False w))) (calls w'))"
  using run_one_calls_prefix [of clock api ident dims ndims w res w']
  by (simp add: paragon_new_net_any_def invoke_New5_def invoke_New3_def invoke_Call_def
        new_net_args_fit [simplified] Let_def split: prod.splits)

theorem construction_strategy_witness:
  \<open>New5 example_api5 = Some example_New5
   \<and> paragon_new_net_any example_api5 ''[]'' ''[]'' ''[]'' False False example_world
       = (Some ''7'', \<lparr>env = 1, calls = [CallNew5 ''[]'' ''[]'' ''[]'' False False]\<rparr>)
   \<and> New5 example_api3 = None \<and> New3 example_api3 = Some example_New3
   \<and> paragon_new_net_any example_api3 ''[]'' ''[]'' ''[]'' False False example_world
       = (Some ''{"id": 9}'', \<lparr>env = 1, calls = [CallNew3 ''[]'' ''[]'' ''[]'']\<rparr>)
   \<and> New5 example_api = None \<and> New3 example_api = None \<and> Call example_api = Some example_Call
   \<and> paragon_new_net_any example_api ''[]'' ''[]'' ''[]'' False False example_world
       = (Some ''{"handle": 3}'',
          \<lparr>env = 1, calls = [CallCall 0 ''NewNetworkFloat32'' ''[[],[],[],false,false]'']\<rparr>)
   \<and> New5 (unbound_api :: nat ParagonAPI) = None \<and> New3 (unbound_api :: nat ParagonAPI) = None
   \<and> Call (unbound_api :: nat ParagonAPI) = None
   \<and> paragon_new_net_any unbound_api ''[]'' ''[]'' ''[]'' False False example_world
       = (None, example_world)
   \<and> (\<exists>r w'. run_one example_clock example_api ''S1'' [784, 64, 10] 3 example_world
                = Some (Reported r, w')
          \<and> prefix [CallCall 0 ''NewNetworkFloat32''
                (''['' @ json_layers [784, 64, 10] 3 @ '','' @ json_activs 3 @ '',''
                   @ json_trainable 3 @ '',false,false]'')] (calls w'))\<close>
proof -
  have h5: "New5 example_api5 = Some example_New5" by (simp add: example_api5_def)
  have h3: "New5 example_api3 = None \<and> New3 example_api3 = Some example_New3"
    by (simp add: example_api3_def)
  have hc: "New5 example_api = None \<and> New3 example_api = None \<and> Call example_api = Some example_Call"
    by (simp add: example_api_def)
  have hu: "New5 (unbound_api :: nat ParagonAPI) = None \<and> New3 (unbound_api :: nat ParagonAPI) = None
      \<and> Call (unbound_api :: nat ParagonAPI) = None"
    by (simp add: unbound_api_def)
  have c5: "paragon_new_net_any example_api5 ''[]'' ''[]'' ''[]'' False False example_world
       = (Some ''7'', \<lparr>env = 1, calls = [CallNew5 ''[]'' ''[]'' ''[]'' False False]\<rparr>)"
    using construction_strategy_priority [where api = example_api5 and ?f5.0 = example_New5
        and l = "''[]''" and a = "''[]''" and t = "''[]''" and g = False and x = False
        and w = example_world, THEN conjunct1] h5
    by (simp add: example_New5_def example_world_def)
  have c3: \<open>paragon_new_net_any example_api3 ''[]'' ''[]'' ''[]'' False False example_world
       = (Some ''{"id": 9}'', \<lparr>env = 1, calls = [CallNew3 ''[]'' ''[]'' ''[]'']\<rparr>)\<close>
    using construction_strategy_priority [where api = example_api3 and ?f3.0 = example_New3
        and l = "''[]''" and a = "''[]''" and t = "''[]''" and g = False and x = False
        and w = example_world, THEN conjunct2, THEN conjunct1] h3
    by (simp add: example_New3_def example_world_def)
  have cc: \<open>paragon_new_net_any example_api ''[]'' ''[]'' ''[]'' False False example_world
       = (Some ''{"handle": 3}'',
          \<lparr>env = 1, calls = [CallCall 0 ''NewNetworkFloat32'' ''[[],[],[],false,false]'']\<rparr>)\<close>
    using construction_strategy_priority [where api = example_api and f = example_Call
        and l = "''[]''" and a = "''[]''" and t = "''[]''" and g = False and x = False
        and w = example_world, THEN conjunct2, THEN conjunct2, THEN conjunct1] hc
    by (simp add: example_Call_def example_world_def bool_json_def)
  have cu: "paragon_new_net_any unbound_api ''[]'' ''[]'' ''[]'' False False example_world
       = (None, example_world)"
    using construction_strategy_priority [where api = "unbound_api :: nat ParagonAPI"
        and l = "''[]''" and a = "''[]''" and t = "''[]''" and g = False and x = False
        and w = example_world, THEN conjunct2, THEN conjunct2, THEN conjunct2, THEN conjunct1] hu
    by simp
  obtain r w' where run: "run_one example_clock example_api ''S1'' [784, 64, 10] 3 example_world
      = Some (Reported r, w')"
    using example_run_one by blast
  have "prefix (calls (snd (paragon_new_net_any example_api (json_layers [784, 64, 10] 3)
      (json_activs 3) (json_trainable 3) False False example_world))) (calls w')"
    using construction_strategy_priority [where api = example_api and clock = example_clock
        and ident = "''S1''" and dims = "[784, 64, 10]" and ndims = 3 and w = example_world
        and res = "Reported r" and w' = w',
        THEN conjunct2, THEN conjunct2, THEN conjunct2, THEN conjunct2] run
    by simp
  then have cr: "prefix [CallCall 0 ''NewNetworkFloat32''
                (''['' @ json_layers [784, 64, 10] 3 @ '','' @ json_activs 3 @ '',''
                   @ json_trainable 3 @ '',false,false]'')] (calls w')"
    by (simp add: new_net_calls example_api_def example_world_def bool_json_def)
  show ?thesis
    using h5 c5 h3 c3 hc cc hu cu run cr by (intro conjI exI [of _ r] exI [of _ w']) simp_all
qed

section \<open>Comparison metrics\<close>

text \<open>
  C7. The comparison looks only at the first \<open>n\<close> values of the two decoded vectors,
  where \<open>n\<close> is the smaller of the two lengths. With \<open>n = 0\<close> both metrics are 0. For
  finite values and \<open>n > 0\<close> the first metric is the sum of the absolute differences
  divided by \<open>n\<close> and the second is their maximum (at least 0). For \<open>[1,2,3]\<close> and
  \<open>[1,2,5]\<close> they are \<open>(0 + 0 + 2) / 3\<close> and 2. The metrics that a case reports are those
  of its two printed replies, decoded with a bound of 1024 values.
\<close>

theorem comparison_metrics:
  "compare_vectors a b =
     compare_vectors (take (min (length a) (length b)) a) (take (min (length a) (length b)) b)
   \<and> (min (length a) (length b) = 0 \<longrightarrow> compare_vectors a b = (Finite 0, Finite 0))
   \<and> (n = min (length xs) (length ys) \<and> 0 < n \<longrightarrow>
        compare_vectors (map Finite xs) (map Finite ys) =
          (Finite ((\<Sum>k<n. \<bar>xs ! k - ys ! k\<bar>) / of_nat n),
           Finite (Max (insert 0 ((\<lambda>k. \<bar>xs ! k - ys ! k\<bar>) ` {..<n})))))
   \<and> compare_vectors [Finite 1, Finite 2, Finite 3] [Finite 1, Finite 2, Finite 5]
        = (Finite ((0 + 0 + 2) / 3), Finite 2)
   \<and> compare_outputs outA outB =
        compare_vectors (parse_vector_tolerant outA 1024) (parse_vector_tolerant outB 1024)
   \<and> (run_one clock api ident dims ndims w = Some (Reported r, w') \<longrightarrow>
        (r_mae r, r_mx r) = compare_outputs (Some (r_outA r)) (Some (r_outB r)))"
proof -
  have f1: "compare_vectors a b =
     compare_vectors (take (min (length a) (length b)) a) (take (min (length a) (length b)) b)"
    by (rule compare_vectors_take)
  have f2: "min (length a) (length b) = 0 \<longrightarrow> compare_vectors a b = (Finite 0, Finite 0)"
    using compare_vectors_empty [of a b] by blast
  have f3: "n = min (length xs) (length ys) \<and> 0 < n \<longrightarrow>
        compare_vectors (map Finite xs) (map Finite ys) =
          (Finite ((\<Sum>k<n. \<bar>xs ! k - ys ! k\<bar>) / of_nat n),
           Finite (Max (insert 0 ((\<lambda>k. \<bar>xs ! k - ys ! k\<bar>) ` {..<n}))))"
    using compare_vectors_finite [of n xs ys] by blast
  have f4: "compare_outputs outA outB =
        compare_vectors (parse_vector_tolerant outA 1024) (parse_vector_tolerant outB 1024)"
    by (simp add: compare_outputs_def)
  have f5: "run_one clock api ident dims ndims w = Some (Reported r, w') \<longrightarrow>
        (r_mae r, r_mx r) = compare_outputs (Some (r_outA r)) (Some (r_outB r))"
    using run_one_metrics [of clock api ident dims ndims w r w'] by blast
  show ?thesis
    by (intro conjI f1 f2 f3 compare_example f4 f5)
qed


theorem comparison_metrics_witness:
  "min (length [Finite 1]) (length ([] :: cdouble list)) = 0
   \<and> compare_vectors [Finite 1] [] = (Finite 0, Finite 0)
   \<and> (3::nat) = min (length [1, 2, 3 :: rat]) (length [1, 2, 5, 7 :: rat]) \<and> (0::nat) < 3
   \<and> compare_vectors (map Finite [1, 2, 3]) (map Finite [1, 2, 5, 7]) = (Finite (2 / 3), Finite 2)
   \<and> (\<exists>r w'. run_one example_clock example_api ''S1'' [784, 64, 10] 3 example_world
                = Some (Reported r, w')
          \<and> r_outA r = ''[[1,2,3]]'' \<and> r_outB r = ''[[1,2,5,7]]''
          \<and> (r_mae r, r_mx r) = (Finite (2 / 3), Finite 2))"
proof -
  have c1: "compare_vectors [Finite 1] [] = (Finite 0, Finite 0)"
    using comparison_metrics [where a = "[Finite 1]" and b = "[]", THEN conjunct2, THEN conjunct1]
    by simp
  have s3: "{..<3::nat} = {0, 1, 2}" by auto
  have c2: "compare_vectors (map Finite [1, 2, 3]) (map Finite [1, 2, 5, 7])
      = (Finite (2 / 3), Finite 2)"
    using comparison_metrics [where n = 3 and xs = "[1, 2, 3]" and ys = "[1, 2, 5, 7]",
        THEN conjunct2, THEN conjunct2, THEN conjunct1]
    by (simp add: s3)
  obtain r w' where run: "run_one example_clock example_api ''S1'' [784, 64, 10] 3 example_world
      = Some (Reported r, w')" and oa: "r_outA r = ''[[1,2,3]]''" and ob: "r_outB r = ''[[1,2,5,7]]''"
    using example_run_outputs by blast
  have c3: "(r_mae r, r_mx r) = (Finite (2 / 3), Finite 2)"
    using comparison_metrics [where clock = example_clock and api = example_api
        and ident = "''S1''" and dims = "[784, 64, 10]" and ndims = 3 and w = example_world
        and r = r and w' = w',
        THEN conjunct2, THEN conjunct2, THEN conjunct2, THEN conjunct2, THEN conjunct2] run
    by (simp only: oa ob example_compare)
  show ?thesis
    using c1 c2 run oa ob c3 by (intro conjI exI [of _ r] exI [of _ w']) simp_all
qed

section \<open>The speed-up ratio\<close>



section \<open>Repeating the construction\<close>

text \<open>
  C9. Two constructions in a row with the same table and the same arguments make the same
  external calls, whatever the library's state: both take the strategy determined by which
  of the three capabilities are bound.
\<close>

theorem construction_strategy_repeatable:
  "(let w1 = snd (paragon_new_net_any api l a t g x w);
        w2 = snd (paragon_new_net_any api l a t g x w1)
    in branch_taken (drop (length (calls w)) (calls w1))
         = Some (strategy_of (New5 api \<noteq> None) (New3 api \<noteq> None) (Call api \<noteq> None))
       \<and> branch_taken (drop (length (calls w1)) (calls w2))
         = Some (strategy_of (New5 api \<noteq> None) (New3 api \<noteq> None) (Call api \<noteq> None))
       \<and> drop (length (calls w)) (calls w1) = drop (length (calls w1)) (calls w2))"
  by (simp add: Let_def new_net_calls strategy_of_def split: option.splits)

section \<open>The empty reply\<close>

text \<open>
  C10. On the empty text \<open>strtoll\<close> consumes nothing and stops at the terminator, so handle
  decoding returns 0, not -1. A construction whose reply is the empty text is given up all
  the same, because \<open>run_one\<close> gives up every handle that is zero or negative.
\<close>

theorem empty_reply_decodes_to_zero_handle:
  "strtoll_c [] = (0, 0)
   \<and> paragon_parse_handle (Some []) = 0
   \<and> paragon_parse_handle (Some []) \<noteq> - 1
   \<and> (paragon_new_net_any api (json_layers dims ndims) (json_activs ndims)
         (json_trainable ndims) False False w = (Some [], w1)
       \<longrightarrow> run_one clock api ident dims ndims w = Some (ConstructionFailed (Some []), w1))"
  using run_one_construction_failed [of api dims ndims w "Some []" w1 clock ident]
  by (simp add: parse_handle_Nil strtoll_c_Nil)

theorem empty_reply_witness:
  "\<exists>w1. paragon_new_net_any silent_api (json_layers [784, 64, 10] 3) (json_activs 3)
            (json_trainable 3) False False example_world = (Some [], w1)
        \<and> run_one example_clock silent_api ''S1'' [784, 64, 10] 3 example_world
            = Some (ConstructionFailed (Some []), w1)"
  using empty_reply_decodes_to_zero_handle
    [where api = silent_api and dims = "[784, 64, 10]" and ndims = 3 and w = example_world
       and clock = example_clock and ident = "''S1''"]
    silent_new_net [of "json_layers [784, 64, 10] 3" "json_activs 3" "json_trainable 3"
        False False example_world]
  by blast

end
